theory Spec2Isabelle
  imports Main
begin

section \<open>Data model of week1/chat\_server.py\<close>

text \<open>
  A Python \<open>str\<close> is a sequence of Unicode code points; the server's literals are Korean,
  so a string is modelled as the list of its code points (\<open>len\<close> is \<open>length\<close>,
  \<open>+\<close> is \<open>@\<close>). A socket object is hashed and compared by identity: it is a
  number. \<open>self.clients\<close> is a \<open>dict\<close>, which iterates in insertion order: it is
  an association list whose keys are distinct.
\<close>

type_synonym pystr = "nat list"
type_synonym sock = nat

text \<open>The exception classes that the server's socket and string calls can raise.\<close>

datatype exn =
    ConnectionResetError
  | ConnectionAbortedError
  | BrokenPipeError
  | OSError
  | UnicodeDecodeError
  | ValueError

text \<open>
  What a worker does to the outside, in the order it does it: taking and releasing
  \<open>self.clients_lock\<close>, a \<open>sendall\<close> that returned (with the text written, newline
  included) and a \<open>sendall\<close> that raised.
\<close>

datatype event =
    Acquire
  | Release
  | Sent sock pystr
  | SendFailed sock pystr

text \<open>
  The server's state and its environment: the registry \<open>self.clients\<close>, the sockets on
  which \<open>close()\<close> has been called, the sockets whose peer is unreachable (with the
  exception their \<open>sendall\<close> raises), and the trace of events so far.
\<close>

record world =
  clients :: "(sock \<times> pystr) list"
  closed :: "sock set"
  faulty :: "sock \<Rightarrow> exn option"
  log :: "event list"

subsection \<open>Strings\<close>

text \<open>\<open>ascii\<close> reads an ASCII literal as a Python string.\<close>

definition ascii :: "string \<Rightarrow> pystr" where
  "ascii s = map of_char s"

text \<open>
  \<open>str.isspace\<close> for one code point: the characters \<open>str.strip()\<close> removes when it
  is called without an argument.
\<close>

definition is_space :: "nat \<Rightarrow> bool" where
  "is_space c \<longleftrightarrow>
     (9 \<le> c \<and> c \<le> 13) \<or> (28 \<le> c \<and> c \<le> 32) \<or> c = 133 \<or> c = 160 \<or> c = 5760 \<or>
     (8192 \<le> c \<and> c \<le> 8202) \<or> c = 8232 \<or> c = 8233 \<or> c = 8239 \<or> c = 8287 \<or> c = 12288"

definition strip :: "pystr \<Rightarrow> pystr" where
  "strip s = rev (dropWhile is_space (rev (dropWhile is_space s)))"

text \<open>\<open>s.startswith(p)\<close>.\<close>

definition startswith :: "pystr \<Rightarrow> pystr \<Rightarrow> bool" where
  "startswith s p \<longleftrightarrow> take (length p) s = p"

text \<open>
  \<open>s.split(' ', n)\<close>: at most \<open>n\<close> splits, at the leftmost spaces (U+0020 only); empty
  pieces are kept, and the result is never empty.
\<close>

fun py_split :: "nat \<Rightarrow> pystr \<Rightarrow> pystr list" where
  "py_split n [] = [[]]"
| "py_split n (c # cs) =
     (if c = 32 \<and> 0 < n then [] # py_split (n - 1) cs
      else (case py_split n cs of
              [] \<Rightarrow> [[c]]
            | t # ts \<Rightarrow> (c # t) # ts))"

subsection \<open>The literals of the source, as code points\<close>

text \<open>The quit command: \<open>/\<close> U+C885 U+B8CC.\<close>

definition quit_token :: pystr where
  "quit_token = [47, 51333, 47308]"

text \<open>The two whisper prefixes: \<open>/w\<close> and \<open>/\<close> U+ADD3 U+C18D U+B9D0, each with its space.\<close>

definition w_prefix :: pystr where
  "w_prefix = [47, 119, 32]"

definition kr_prefix :: pystr where
  "kr_prefix = [47, 44499, 49549, 47568, 32]"

text \<open>The farewell line sent on quit (line 76).\<close>

definition farewell :: pystr where
  "farewell = [49436, 48260, 62, 32, 50672, 44208, 51012, 32, 51333, 47308, 54633, 45768,
     45796, 46, 32, 50504, 45397, 55176, 32, 44032, 49464, 50836, 46]"

text \<open>The usage notice (line 106).\<close>

definition usage :: pystr where
  "usage = [49436, 48260, 62, 32, 49324, 50857, 48277, 58, 32, 47, 119, 32, 45769, 45348,
     51076, 32, 47700, 49884, 51648]"

text \<open>The "target nickname not found" notice up to the name (line 111).\<close>

definition not_found :: pystr where
  "not_found = [49436, 48260, 62, 32, 45824, 49345, 32, 45769, 45348, 51076, 51012, 32,
     52286, 51012, 32, 49688, 32, 50630, 49845, 45768, 45796, 58, 32]"

text \<open>The opening of a whisper (line 115) and of its confirmation (line 117).\<close>

definition whisper_open :: pystr where
  "whisper_open = [40, 44499, 49549, 47568, 41, 32]"

definition whisper_sent_open :: pystr where
  "whisper_sent_open = [40, 44499, 49549, 47568, 32, 48372, 45252, 41, 32]"

text \<open>The system prefix (line 131): U+C11C U+BC84, \<open>>\<close>, space.\<close>

definition server_prefix :: pystr where
  "server_prefix = [49436, 48260, 62, 32]"

text \<open>What follows the nickname in the join notice (line 65) and the departure notice (line 100).\<close>

definition joined :: pystr where
  "joined = [45784, 51060, 32, 51077, 51109, 54616, 49512, 49845, 45768, 45796, 46]"

definition left :: pystr where
  "left = [45784, 51060, 32, 53748, 51109, 54616, 49512, 49845, 45768, 45796, 46]"

section \<open>The registry\<close>

text \<open>\<open>d[k] = v\<close>: an existing key keeps its place, a new key goes to the end.\<close>

fun dict_set :: "sock \<Rightarrow> pystr \<Rightarrow> (sock \<times> pystr) list \<Rightarrow> (sock \<times> pystr) list" where
  "dict_set k v [] = [(k, v)]"
| "dict_set k v ((k', v') # d) = (if k' = k then (k, v) # d else (k', v') # dict_set k v d)"

text \<open>\<open>d.pop(k, None)\<close>: the value removed, if there was one, and the dictionary left.\<close>

fun dict_pop :: "sock \<Rightarrow> (sock \<times> pystr) list \<Rightarrow> pystr option \<times> (sock \<times> pystr) list" where
  "dict_pop k [] = (None, [])"
| "dict_pop k ((k', v') # d) =
     (if k' = k then (Some v', d)
      else (case dict_pop k d of (r, d') \<Rightarrow> (r, (k', v') # d')))"

text \<open>\<open>k in d\<close>.\<close>

definition dict_in :: "sock \<Rightarrow> (sock \<times> pystr) list \<Rightarrow> bool" where
  "dict_in k d \<longleftrightarrow> k \<in> set (map fst d)"

text \<open>The scan of \<open>_find_socket_by_name\<close> (lines 121 to 124): the first entry with the name.\<close>

fun find_first :: "pystr \<Rightarrow> (sock \<times> pystr) list \<Rightarrow> sock option" where
  "find_first name [] = None"
| "find_first name ((s, nick) # d) = (if nick = name then Some s else find_first name d)"

section \<open>Lock, send and close\<close>

definition acquire :: "world \<Rightarrow> world" where
  "acquire w = w\<lparr>log := log w @ [Acquire]\<rparr>"

definition release :: "world \<Rightarrow> world" where
  "release w = w\<lparr>log := log w @ [Release]\<rparr>"

text \<open>
  \<open>sendall\<close> raises on a socket already closed here (bad file descriptor) and on a socket
  whose peer is unreachable; otherwise the whole text goes out.
\<close>

definition send_fault :: "world \<Rightarrow> sock \<Rightarrow> exn option" where
  "send_fault w s = (if s \<in> closed w then Some OSError else faulty w s)"

definition writable :: "world \<Rightarrow> sock \<Rightarrow> bool" where
  "writable w s \<longleftrightarrow> send_fault w s = None"

text \<open>
  \<open>_send_text\<close> (lines 153, 154): the text and a newline. The result is the exception
  raised, if any. (Encoding cannot fail: a decoded UTF-8 text holds no surrogate.)
\<close>

definition send_text :: "sock \<Rightarrow> pystr \<Rightarrow> world \<Rightarrow> exn option \<times> world" where
  "send_text s text w =
     (case send_fault w s of
        Some e \<Rightarrow> (Some e, w\<lparr>log := log w @ [SendFailed s (text @ [10])]\<rparr>)
      | None \<Rightarrow> (None, w\<lparr>log := log w @ [Sent s (text @ [10])]\<rparr>))"

text \<open>\<open>sock.close()\<close>, which the source wraps so that it never raises.\<close>

definition close_sock :: "sock \<Rightarrow> world \<Rightarrow> world" where
  "close_sock s w = w\<lparr>closed := insert s (closed w)\<rparr>"

section \<open>Broadcast (lines 126 to 151)\<close>

text \<open>The first loop of \<open>_broadcast\<close>: one send per socket, the failures collected in \<open>dead\<close>.\<close>

fun send_all :: "sock list \<Rightarrow> pystr \<Rightarrow> world \<Rightarrow> sock list \<times> world" where
  "send_all [] text w = ([], w)"
| "send_all (s # ss) text w =
     (case send_text s text w of
        (None, w1) \<Rightarrow> send_all ss text w1
      | (Some e, w1) \<Rightarrow> (case send_all ss text w1 of (dead, w2) \<Rightarrow> (s # dead, w2)))"

text \<open>
  The second loop: each dead socket is popped and closed. The popped nickname is
  looked at and nothing is done with it (lines 149 to 151).
\<close>

fun drop_dead :: "sock list \<Rightarrow> world \<Rightarrow> world" where
  "drop_dead [] w = w"
| "drop_dead (s # ss) w =
     drop_dead ss (close_sock s (w\<lparr>clients := snd (dict_pop s (clients w))\<rparr>))"

definition broadcast :: "pystr \<Rightarrow> world \<Rightarrow> world" where
  "broadcast text w =
     (let w0 = acquire w in
      case send_all (map fst (clients w0)) text w0 of
        (dead, w1) \<Rightarrow> release (drop_dead dead w1))"

definition broadcast_chat :: "pystr \<Rightarrow> pystr \<Rightarrow> world \<Rightarrow> world" where
  "broadcast_chat nickname message w = broadcast (nickname @ [62, 32] @ message) w"

definition broadcast_system :: "pystr \<Rightarrow> world \<Rightarrow> world" where
  "broadcast_system message w = broadcast (server_prefix @ message) w"

section \<open>Whisper (lines 102 to 124)\<close>

definition find_socket_by_name :: "pystr \<Rightarrow> world \<Rightarrow> sock option \<times> world" where
  "find_socket_by_name name w =
     (let w0 = acquire w in (find_first name (clients w0), release w0))"

text \<open>
  Lines 109 to 117 of \<open>_handle_whisper\<close>, once the three parts are there: look the target
  up, report a missing one to the sender, otherwise write to the target and, when the
  target is another socket, confirm to the sender. An exception of a send leaves the function.
\<close>

definition whisper :: "pystr \<Rightarrow> pystr \<Rightarrow> pystr \<Rightarrow> sock \<Rightarrow> world \<Rightarrow> exn option \<times> world" where
  "whisper sender target_name body client_socket w =
     (case find_socket_by_name target_name w of
        (None, w1) \<Rightarrow> send_text client_socket (not_found @ target_name) w1
      | (Some target_sock, w1) \<Rightarrow>
          (case send_text target_sock (whisper_open @ sender @ [62, 32] @ body) w1 of
             (Some e, w2) \<Rightarrow> (Some e, w2)
           | (None, w2) \<Rightarrow>
               if target_sock \<noteq> client_socket
               then send_text client_socket
                      (whisper_sent_open @ sender @ [32, 45, 62, 32] @ target_name @ [62, 32] @ body) w2
               else (None, w2)))"

text \<open>
  \<open>_handle_whisper\<close>: lines 104 to 108 and then the part above. Unpacking anything but
  three parts would raise \<open>ValueError\<close>.
\<close>

definition handle_whisper :: "pystr \<Rightarrow> pystr \<Rightarrow> sock \<Rightarrow> world \<Rightarrow> exn option \<times> world" where
  "handle_whisper sender raw client_socket w =
     (let parts = py_split 2 raw in
      if length parts < 3 then send_text client_socket usage w
      else (case parts of
              [_, target_name, body] \<Rightarrow> whisper sender target_name body client_socket w
            | _ \<Rightarrow> (Some ValueError, w)))"

section \<open>The session worker (lines 53 to 100)\<close>

text \<open>
  What one call of \<open>_recv_text\<close> gives: a text (empty when the peer has closed the
  stream) or an exception. A worker is run against the list of what its socket will
  give; when the list is used up the worker is waiting in \<open>recv\<close>.
\<close>

datatype recv_outcome = Recv pystr | RecvError exn

datatype flow = Continue | Break | Raise exn

datatype outcome = Returned | Escaped exn | Waiting

text \<open>The body of the message loop after the read (lines 70 to 85).\<close>

definition handle_line :: "pystr \<Rightarrow> sock \<Rightarrow> pystr \<Rightarrow> world \<Rightarrow> flow \<times> world" where
  "handle_line nickname client_socket data w =
     (if data = [] then (Break, w)
      else
        let msg = strip data in
        if msg = quit_token then
          (case send_text client_socket farewell w of
             (None, w1) \<Rightarrow> (Break, w1)
           | (Some e, w1) \<Rightarrow> (Raise e, w1))
        else if startswith msg w_prefix \<or> startswith msg kr_prefix then
          (case handle_whisper nickname msg client_socket w of
             (None, w1) \<Rightarrow> (Continue, w1)
           | (Some e, w1) \<Rightarrow> (Raise e, w1))
        else (Continue, broadcast_chat nickname msg w))"

text \<open>The loop of lines 68 to 85.\<close>

fun message_loop :: "pystr \<Rightarrow> sock \<Rightarrow> recv_outcome list \<Rightarrow> world \<Rightarrow> outcome \<times> world" where
  "message_loop nickname client_socket [] w = (Waiting, w)"
| "message_loop nickname client_socket (RecvError e # script) w = (Escaped e, w)"
| "message_loop nickname client_socket (Recv data # script) w =
     (case handle_line nickname client_socket data w of
        (Continue, w1) \<Rightarrow> message_loop nickname client_socket script w1
      | (Break, w1) \<Rightarrow> (Returned, w1)
      | (Raise e, w1) \<Rightarrow> (Escaped e, w1))"

text \<open>
  The \<open>finally\<close> block (lines 89 to 100), with the value of the local \<open>nickname\<close> on
  entry: the socket is popped if it is registered, closed, and the departure is
  announced when the nickname is not empty.
\<close>

definition cleanup :: "pystr \<Rightarrow> sock \<Rightarrow> world \<Rightarrow> world" where
  "cleanup nickname client_socket w =
     (let w0 = acquire w;
          existed = dict_in client_socket (clients w0);
          (popped, d) = (if existed then dict_pop client_socket (clients w0)
                         else (None, clients w0));
          nickname' = (case popped of Some n \<Rightarrow> n | None \<Rightarrow> nickname);
          w1 = release (w0\<lparr>clients := d\<rparr>);
          w2 = close_sock client_socket w1
      in if nickname' \<noteq> [] then broadcast_system (nickname' @ left) w2 else w2)"

text \<open>
  The \<open>except\<close> clause and the \<open>finally\<close> block around the body: a reset or an abort of
  the connection is swallowed, any other exception leaves the worker, after the cleanup.
\<close>

definition try_finally :: "pystr \<Rightarrow> sock \<Rightarrow> outcome \<times> world \<Rightarrow> outcome \<times> world" where
  "try_finally nickname client_socket r =
     (case r of
        (Waiting, w) \<Rightarrow> (Waiting, w)
      | (Returned, w) \<Rightarrow> (Returned, cleanup nickname client_socket w)
      | (Escaped e, w) \<Rightarrow>
          (if e = ConnectionResetError \<or> e = ConnectionAbortedError then Returned else Escaped e,
           cleanup nickname client_socket w))"

text \<open>Registration (lines 62, 63).\<close>

definition register :: "sock \<Rightarrow> pystr \<Rightarrow> world \<Rightarrow> world" where
  "register client_socket nickname w =
     release ((acquire w)\<lparr>clients := dict_set client_socket nickname (clients w)\<rparr>)"

definition handle_client :: "sock \<Rightarrow> recv_outcome list \<Rightarrow> world \<Rightarrow> outcome \<times> world" where
  "handle_client client_socket script w =
     (case script of
        [] \<Rightarrow> (Waiting, w)
      | RecvError e # _ \<Rightarrow> try_finally [] client_socket (Escaped e, w)
      | Recv data # rest \<Rightarrow>
          let nickname = strip data in
          if nickname = [] then try_finally nickname client_socket (Returned, close_sock client_socket w)
          else
            let w1 = register client_socket nickname w;
                w2 = broadcast_system (nickname @ joined) w1
            in try_finally nickname client_socket (message_loop nickname client_socket rest w2))"

section \<open>Observing a run\<close>

text \<open>The texts that socket \<open>s\<close> has been sent, in order, in a trace.\<close>

fun received :: "sock \<Rightarrow> event list \<Rightarrow> pystr list" where
  "received s [] = []"
| "received s (Sent r f # es) = (if r = s then f # received s es else received s es)"
| "received s (_ # es) = received s es"

text \<open>All the deliveries of a trace: who was sent what.\<close>

fun deliveries :: "event list \<Rightarrow> (sock \<times> pystr) list" where
  "deliveries [] = []"
| "deliveries (Sent r f # es) = (r, f) # deliveries es"
| "deliveries (_ # es) = deliveries es"

text \<open>The event that one send of \<open>text\<close> to \<open>s\<close> leaves in the trace.\<close>

definition attempt :: "world \<Rightarrow> pystr \<Rightarrow> sock \<Rightarrow> event" where
  "attempt w text s =
     (if writable w s then Sent s (text @ [10]) else SendFailed s (text @ [10]))"

text \<open>The events a step has added to the trace.\<close>

definition new_events :: "world \<Rightarrow> world \<Rightarrow> event list" where
  "new_events w w' = drop (length (log w)) (log w')"

text \<open>The keys of the registry, in its order.\<close>

definition registered :: "world \<Rightarrow> sock list" where
  "registered w = map fst (clients w)"

text \<open>
  Two readings of a trace, from a point where the lock is held or not: no write happens
  while the lock is held (what the specification asks of a broadcast), and every write
  happens while the lock is held.
\<close>

fun io_outside_lock :: "bool \<Rightarrow> event list \<Rightarrow> bool" where
  "io_outside_lock held [] = True"
| "io_outside_lock held (Acquire # es) = io_outside_lock True es"
| "io_outside_lock held (Release # es) = io_outside_lock False es"
| "io_outside_lock held (Sent r f # es) = (\<not> held \<and> io_outside_lock held es)"
| "io_outside_lock held (SendFailed r f # es) = (\<not> held \<and> io_outside_lock held es)"

fun io_inside_lock :: "bool \<Rightarrow> event list \<Rightarrow> bool" where
  "io_inside_lock held [] = True"
| "io_inside_lock held (Acquire # es) = io_inside_lock True es"
| "io_inside_lock held (Release # es) = io_inside_lock False es"
| "io_inside_lock held (Sent r f # es) = (held \<and> io_inside_lock held es)"
| "io_inside_lock held (SendFailed r f # es) = (held \<and> io_inside_lock held es)"

text \<open>\<open>s.split(' ')\<close>, with no bound on the number of splits: the space-separated tokens.\<close>

definition space_tokens :: "pystr \<Rightarrow> pystr list" where
  "space_tokens s = py_split (length s) s"

text \<open>
  A registry of three sessions A, B and C on sockets 1, 2 and 3, every peer reachable,
  and the same registry when the peer of socket 2 is gone.
\<close>

definition three_sessions :: world where
  "three_sessions =
     \<lparr>clients = [(1, ascii ''A''), (2, ascii ''B''), (3, ascii ''C'')], closed = {},
      faulty = (\<lambda>s. None), log = []\<rparr>"

definition three_sessions_b_gone :: world where
  "three_sessions_b_gone =
     \<lparr>clients = [(1, ascii ''A''), (2, ascii ''B''), (3, ascii ''C'')], closed = {},
      faulty = (\<lambda>s. if s = 2 then Some BrokenPipeError else None), log = []\<rparr>"

section \<open>Properties of the registry and of broadcast\<close>

lemma writable_log [simp]: "writable (w\<lparr>log := l\<rparr>) s = writable w s"
  by (simp add: writable_def send_fault_def)

lemma writable_clients [simp]: "writable (w\<lparr>clients := d\<rparr>) s = writable w s"
  by (simp add: writable_def send_fault_def)

lemma attempt_log [simp]: "attempt (w\<lparr>log := l\<rparr>) text = attempt w text"
  by (rule ext) (simp add: attempt_def)

lemma send_text_writable:
  "writable w s \<Longrightarrow> send_text s text w = (None, w\<lparr>log := log w @ [Sent s (text @ [10])]\<rparr>)"
  by (simp add: send_text_def writable_def)

lemma send_text_unwritable:
  "\<not> writable w s \<Longrightarrow>
   \<exists>e. send_text s text w = (Some e, w\<lparr>log := log w @ [SendFailed s (text @ [10])]\<rparr>)"
  by (auto simp: send_text_def writable_def split: option.splits)

lemma send_all_eq:
  "send_all ss text w =
     (filter (\<lambda>s. \<not> writable w s) ss, w\<lparr>log := log w @ map (attempt w text) ss\<rparr>)"
proof (induction ss arbitrary: w)
  case Nil
  show ?case by simp
next
  case (Cons s ss)
  show ?case
  proof (cases "writable w s")
    case True
    then show ?thesis
      by (simp add: send_text_writable Cons.IH attempt_def)
  next
    case False
    then obtain e where "send_text s text w = (Some e, w\<lparr>log := log w @ [SendFailed s (text @ [10])]\<rparr>)"
      using send_text_unwritable by blast
    with False show ?thesis
      by (simp add: Cons.IH attempt_def)
  qed
qed

lemma dict_pop_snd:
  "distinct (map fst d) \<Longrightarrow> snd (dict_pop k d) = filter (\<lambda>p. fst p \<noteq> k) d"
proof (induction d)
  case Nil
  show ?case by simp
next
  case (Cons p d)
  obtain k' v' where p: "p = (k', v')" by (cases p)
  show ?case
  proof (cases "k' = k")
    case True
    with Cons.prems p have "k \<notin> fst ` set d" by simp
    then have "filter (\<lambda>p. fst p \<noteq> k) d = d"
      by (intro filter_True) auto
    with True p show ?thesis by simp
  next
    case False
    with Cons p show ?thesis by (cases "dict_pop k d") simp
  qed
qed

lemma dict_pop_fst: "fst (dict_pop k d) = map_of d k"
  by (induction d) (auto split: prod.splits)

lemma distinct_filter_keys:
  "distinct (map fst d) \<Longrightarrow> distinct (map fst (filter P d))"
  by (simp add: distinct_map_filter)

lemma drop_dead_eq:
  "distinct (map fst (clients w)) \<Longrightarrow>
   drop_dead ds w =
     w\<lparr>clients := filter (\<lambda>p. fst p \<notin> set ds) (clients w), closed := closed w \<union> set ds\<rparr>"
proof (induction ds arbitrary: w)
  case Nil
  show ?case by simp
next
  case (Cons s ds)
  let ?w1 = "close_sock s (w\<lparr>clients := snd (dict_pop s (clients w))\<rparr>)"
  have c1: "clients ?w1 = filter (\<lambda>p. fst p \<noteq> s) (clients w)"
    using Cons.prems by (simp add: close_sock_def dict_pop_snd)
  then have "distinct (map fst (clients ?w1))"
    using Cons.prems by (simp add: distinct_filter_keys)
  then have "drop_dead ds ?w1 =
      ?w1\<lparr>clients := filter (\<lambda>p. fst p \<notin> set ds) (clients ?w1), closed := closed ?w1 \<union> set ds\<rparr>"
    by (rule Cons.IH)
  then show ?case
    using Cons.prems by (simp add: close_sock_def dict_pop_snd)
qed

lemma drop_dead_log [simp]: "log (drop_dead ds w) = log w"
  by (induction ds arbitrary: w) (simp_all add: close_sock_def)

lemma drop_dead_faulty [simp]: "faulty (drop_dead ds w) = faulty w"
  by (induction ds arbitrary: w) (simp_all add: close_sock_def)

lemma broadcast_log:
  "log (broadcast text w) =
     log w @ [Acquire] @ map (attempt w text) (registered w) @ [Release]"
  by (simp add: broadcast_def acquire_def release_def send_all_eq registered_def attempt_def)

lemma broadcast_faulty [simp]: "faulty (broadcast text w) = faulty w"
  by (simp add: broadcast_def acquire_def release_def send_all_eq)

lemma broadcast_clients:
  "distinct (registered w) \<Longrightarrow>
   clients (broadcast text w) = filter (\<lambda>p. writable w (fst p)) (clients w)"
  by (auto simp: broadcast_def acquire_def release_def send_all_eq registered_def drop_dead_eq
      intro: filter_cong)

lemma broadcast_closed:
  "distinct (registered w) \<Longrightarrow>
   closed (broadcast text w) = closed w \<union> {s \<in> set (registered w). \<not> writable w s}"
  by (auto simp: broadcast_def acquire_def release_def send_all_eq registered_def drop_dead_eq)

lemma broadcast_all_writable:
  assumes "\<forall>s \<in> set (registered w). writable w s"
  shows "broadcast text w =
     w\<lparr>log := log w @ [Acquire] @ map (\<lambda>s. Sent s (text @ [10])) (registered w) @ [Release]\<rparr>"
proof -
  have "filter (\<lambda>s. \<not> writable w s) (registered w) = []"
    using assms by (simp add: filter_empty_conv)
  moreover have "map (attempt w text) (registered w) = map (\<lambda>s. Sent s (text @ [10])) (registered w)"
    using assms by (simp add: attempt_def)
  ultimately show ?thesis
    by (simp add: broadcast_def acquire_def release_def send_all_eq registered_def)
qed

lemma received_append [simp]: "received s (xs @ ys) = received s xs @ received s ys"
  by (induction s xs rule: received.induct) simp_all

lemma deliveries_append [simp]: "deliveries (xs @ ys) = deliveries xs @ deliveries ys"
  by (induction xs rule: deliveries.induct) simp_all

lemma received_sent_map:
  "distinct ss \<Longrightarrow>
   received s (map (\<lambda>r. Sent r f) ss) = (if s \<in> set ss then [f] else [])"
proof (induction ss)
  case Nil
  show ?case by simp
next
  case (Cons r ss)
  then show ?case by auto
qed

section \<open>Properties of strings and of the classification of a line\<close>

lemma new_events_append [simp]: "new_events w (w'\<lparr>log := log w @ es\<rparr>) = es"
  by (simp add: new_events_def)

lemma registered_log [simp]: "registered (w\<lparr>log := l\<rparr>) = registered w"
  by (simp add: registered_def)

lemma py_split_length: "length (py_split n s) = Suc (min n (count_list s 32))"
proof (induction s arbitrary: n)
  case Nil
  show ?case by simp
next
  case (Cons c cs)
  show ?case
  proof (cases "c = 32 \<and> 0 < n")
    case True
    then obtain m where "n = Suc m" by (cases n) auto
    with True show ?thesis by (simp add: Cons.IH)
  next
    case False
    have "length (py_split n cs) = Suc (min n (count_list cs 32))" by (rule Cons.IH)
    then obtain t ts where ts: "py_split n cs = t # ts" by (cases "py_split n cs") auto
    from False have "c \<noteq> 32 \<or> n = 0" by auto
    then show ?thesis
    proof
      assume "c \<noteq> 32"
      with ts Cons.IH [of n] show ?thesis by simp
    next
      assume "n = 0"
      with ts Cons.IH [of n] show ?thesis by simp
    qed
  qed
qed

lemma count_list_le_length: "count_list s x \<le> length s"
  by (induction s) auto

lemma space_tokens_length: "length (space_tokens s) = Suc (count_list s 32)"
  by (simp add: space_tokens_def py_split_length min_absorb2 count_list_le_length)

lemma few_tokens_iff: "length (py_split 2 s) < 3 \<longleftrightarrow> length (space_tokens s) < 3"
  by (simp add: py_split_length space_tokens_length min_def)

lemma three_parts:
  assumes "3 \<le> length (space_tokens s)"
  shows "\<exists>cmd t b. py_split 2 s = [cmd, t, b]"
proof -
  from assms have "length (py_split 2 s) = 3"
    by (simp add: py_split_length space_tokens_length)
  then show ?thesis
    by (auto simp: length_Suc_conv numeral_3_eq_3)
qed

lemma quit_not_whisper:
  "\<not> startswith quit_token w_prefix" "\<not> startswith quit_token kr_prefix"
  by (simp_all add: startswith_def quit_token_def w_prefix_def kr_prefix_def)

lemma empty_not_special:
  "[] \<noteq> quit_token" "\<not> startswith [] w_prefix" "\<not> startswith [] kr_prefix"
  by (simp_all add: startswith_def quit_token_def w_prefix_def kr_prefix_def)

lemma strip_all_space: "list_all is_space s \<Longrightarrow> strip s = []"
proof -
  assume "list_all is_space s"
  then have h: "dropWhile is_space s = []"
    by (simp add: list_all_iff dropWhile_eq_Nil_conv)
  show ?thesis
    by (simp only: strip_def h rev.simps dropWhile.simps)
qed

lemma strip_hd: "strip s \<noteq> [] \<Longrightarrow> \<not> is_space (hd (strip s))"
proof -
  assume ne: "strip s \<noteq> []"
  define a where "a = dropWhile is_space s"
  define b where "b = dropWhile is_space (rev a)"
  have st: "strip s = rev b" by (simp add: strip_def a_def b_def)
  with ne have b: "b \<noteq> []" by simp
  have a: "a \<noteq> []"
  proof
    assume "a = []"
    then have "b = []" by (simp add: b_def)
    with b show False by simp
  qed
  obtain k where k: "b = drop k (rev a)"
    unfolding b_def by (metis dropWhile_eq_drop)
  have "hd (rev b) = last b" using b by (simp add: hd_rev)
  also have "\<dots> = last (rev a)" using b k by simp
  also have "\<dots> = hd a" using a by (simp add: last_rev)
  finally have "hd (strip s) = hd a" by (simp add: st)
  moreover have "\<not> is_space (hd a)"
    unfolding a_def using a [unfolded a_def] by (rule hd_dropWhile)
  ultimately show ?thesis by simp
qed

lemma strip_last: "strip s \<noteq> [] \<Longrightarrow> \<not> is_space (last (strip s))"
proof -
  assume ne: "strip s \<noteq> []"
  let ?b = "dropWhile is_space (rev (dropWhile is_space s))"
  from ne have b: "?b \<noteq> []" by (simp add: strip_def)
  then have "\<not> is_space (hd ?b)" by (rule hd_dropWhile)
  moreover have "last (rev ?b) = hd ?b" using b by (simp add: last_rev)
  ultimately show ?thesis by (simp add: strip_def)
qed

lemma quit_token_nonempty: "quit_token \<noteq> []"
  by (simp add: quit_token_def)

lemma strip_quit: "strip (quit_token @ [10]) = quit_token"
  by (simp add: strip_def quit_token_def is_space_def)

lemma handle_line_chat:
  assumes "data \<noteq> []" and "strip data \<noteq> quit_token"
      and "\<not> startswith (strip data) w_prefix" and "\<not> startswith (strip data) kr_prefix"
  shows "handle_line nickname c data w = (Continue, broadcast (nickname @ [62, 32] @ strip data) w)"
  using assms by (simp add: handle_line_def broadcast_chat_def Let_def)

lemma handle_line_quit:
  assumes "data \<noteq> []" and "strip data = quit_token"
  shows "handle_line nickname c data w =
     (case send_text c farewell w of (None, w1) \<Rightarrow> (Break, w1) | (Some e, w1) \<Rightarrow> (Raise e, w1))"
  using assms by (simp add: handle_line_def Let_def)

lemma handle_line_whisper:
  assumes "data \<noteq> []" and "startswith (strip data) w_prefix \<or> startswith (strip data) kr_prefix"
  shows "handle_line nickname c data w =
     (case handle_whisper nickname (strip data) c w of
        (None, w1) \<Rightarrow> (Continue, w1) | (Some e, w1) \<Rightarrow> (Raise e, w1))"
proof -
  from assms(2) have "strip data \<noteq> quit_token"
    using quit_not_whisper by auto
  with assms show ?thesis by (simp add: handle_line_def Let_def)
qed

lemma received_broadcast:
  assumes "distinct (registered w)" and "\<forall>s \<in> set (registered w). writable w s"
  shows "received s (new_events w (broadcast text w)) =
           (if s \<in> set (registered w) then [text @ [10]] else [])"
  using assms by (simp add: broadcast_all_writable received_sent_map)

lemma three_sessions_registered: "registered three_sessions = [1, 2, 3]"
  by (simp add: registered_def three_sessions_def)

lemma three_sessions_writable: "writable three_sessions s"
  by (simp add: writable_def send_fault_def three_sessions_def)

lemma b_gone_registered: "registered three_sessions_b_gone = [1, 2, 3]"
  by (simp add: registered_def three_sessions_b_gone_def)

lemma b_gone_writable: "writable three_sessions_b_gone s \<longleftrightarrow> s \<noteq> 2"
  by (simp add: writable_def send_fault_def three_sessions_b_gone_def)

lemma hello_is_chat:
  "ascii ''hello'' \<noteq> []" "strip (ascii ''hello'') = ascii ''hello''"
  "ascii ''hello'' \<noteq> quit_token"
  "\<not> startswith (ascii ''hello'') w_prefix" "\<not> startswith (ascii ''hello'') kr_prefix"
  by (simp_all add: ascii_def strip_def is_space_def quit_token_def startswith_def
      w_prefix_def kr_prefix_def)


section \<open>Broadcast fan-out\<close>

text \<open>
  Claim C1, as stated, fails: in a registry of three sessions A, B and C, when A sends
  the chat line \<open>hello\<close>, A's own socket is written the line \<open>A> hello\<close> too.
\<close>

theorem sender_gets_own_chat_line:
  "received 1 (new_events three_sessions
      (snd (handle_line (ascii ''A'') 1 (ascii ''hello'') three_sessions))) =
   [ascii ''A> hello'' @ [10]]"
proof -
  have "handle_line (ascii ''A'') 1 (ascii ''hello'') three_sessions =
      (Continue, broadcast (ascii ''A'' @ [62, 32] @ ascii ''hello'') three_sessions)"
    using hello_is_chat by (simp add: handle_line_chat)
  moreover have "received 1 (new_events three_sessions
      (broadcast (ascii ''A'' @ [62, 32] @ ascii ''hello'') three_sessions)) =
      [(ascii ''A'' @ [62, 32] @ ascii ''hello'') @ [10]]"
    by (simp add: received_broadcast three_sessions_registered three_sessions_writable)
  ultimately show ?thesis by (simp add: ascii_def)
qed

text \<open>
  Claim C1, amended: a received line that is a chat line (not empty, and after trimming
  neither the quit command nor a whisper) is written, as \<open><nickname>> <trimmed line>\<close>
  and a newline, exactly once to every registered socket, the sender's own included,
  and to no other socket, when every registered peer is reachable. The session goes on.
\<close>

theorem chat_line_reaches_every_session:
  assumes "distinct (registered w)"
      and "\<forall>s \<in> set (registered w). writable w s"
      and "data \<noteq> []" and "strip data \<noteq> quit_token"
      and "\<not> startswith (strip data) w_prefix" and "\<not> startswith (strip data) kr_prefix"
  shows "fst (handle_line nickname client_socket data w) = Continue \<and>
         received s (new_events w (snd (handle_line nickname client_socket data w))) =
           (if s \<in> set (registered w) then [nickname @ [62, 32] @ strip data @ [10]] else [])"
  using assms by (simp add: handle_line_chat received_broadcast)

theorem chat_line_reaches_every_session_witness:
  "fst (handle_line (ascii ''A'') 1 (ascii ''hello'') three_sessions) = Continue \<and>
   received 1 (new_events three_sessions
      (snd (handle_line (ascii ''A'') 1 (ascii ''hello'') three_sessions))) =
     [ascii ''A> hello'' @ [10]] \<and>
   received 2 (new_events three_sessions
      (snd (handle_line (ascii ''A'') 1 (ascii ''hello'') three_sessions))) =
     [ascii ''A> hello'' @ [10]] \<and>
   received 3 (new_events three_sessions
      (snd (handle_line (ascii ''A'') 1 (ascii ''hello'') three_sessions))) =
     [ascii ''A> hello'' @ [10]] \<and>
   received 4 (new_events three_sessions
      (snd (handle_line (ascii ''A'') 1 (ascii ''hello'') three_sessions))) = []"
proof -
  have d: "distinct (registered three_sessions)"
    by (simp add: three_sessions_registered)
  have wr: "\<forall>s \<in> set (registered three_sessions). writable three_sessions s"
    by (simp add: three_sessions_writable)
  note t = chat_line_reaches_every_session [OF d wr hello_is_chat(1), of "ascii ''A''" 1]
  have q: "strip (ascii ''hello'') \<noteq> quit_token"
    "\<not> startswith (strip (ascii ''hello'')) w_prefix"
    "\<not> startswith (strip (ascii ''hello'')) kr_prefix"
    using hello_is_chat by simp_all
  show ?thesis
    using t [OF q, of 1] t [OF q, of 2] t [OF q, of 3] t [OF q, of 4]
    by (simp add: three_sessions_registered ascii_def strip_def is_space_def)
qed

section \<open>Whisper\<close>

lemma find_socket_by_name_eq:
  "find_socket_by_name name w = (find_first name (clients w), w\<lparr>log := log w @ [Acquire, Release]\<rparr>)"
  by (simp add: find_socket_by_name_def acquire_def release_def Let_def)

lemma handle_whisper_parts:
  "py_split 2 raw = [cmd, target_name, body] \<Longrightarrow>
   handle_whisper sender raw c w = whisper sender target_name body c w"
  by (simp add: handle_whisper_def Let_def)

lemma whisper_found:
  assumes "find_first target_name (clients w) = Some t"
      and "writable w t" and "writable w c"
  shows "whisper sender target_name body c w =
     (None, w\<lparr>log := log w @ [Acquire, Release, Sent t (whisper_open @ sender @ [62, 32] @ body @ [10])] @
        (if t = c then []
         else [Sent c (whisper_sent_open @ sender @ [32, 45, 62, 32] @ target_name @ [62, 32] @ body @ [10])])\<rparr>)"
  using assms by (simp add: whisper_def find_socket_by_name_eq send_text_writable)

lemma whisper_missing:
  assumes "find_first target_name (clients w) = None" and "writable w c"
  shows "whisper sender target_name body c w =
     (None, w\<lparr>log := log w @ [Acquire, Release, Sent c (not_found @ target_name @ [10])]\<rparr>)"
  using assms by (simp add: whisper_def find_socket_by_name_eq send_text_writable)

lemma find_first_three:
  "find_first (ascii ''A'') (clients three_sessions) = Some 1"
  "find_first (ascii ''B'') (clients three_sessions) = Some 2"
  "find_first (ascii ''Ghost'') (clients three_sessions) = None"
  by (simp_all add: three_sessions_def ascii_def)

lemma split_examples:
  "py_split 2 (ascii ''/w B secret'') = [ascii ''/w'', ascii ''B'', ascii ''secret'']"
  "py_split 2 (ascii ''/w A hi'') = [ascii ''/w'', ascii ''A'', ascii ''hi'']"
  "py_split 2 (ascii ''/w Ghost hi'') = [ascii ''/w'', ascii ''Ghost'', ascii ''hi'']"
  by (simp_all add: ascii_def)

text \<open>
  Claim C2: for every whisper whose target nickname resolves in the registry, when the
  target's and the sender's sockets can be written, the target socket is written
  \<open>(whisper) <sender>> <body>\<close> (the source's literal is Korean) and, unless it is
  the sender's own socket, the sender is written the confirmation
  \<open>(whisper sent) <sender> -> <target>> <body>\<close>. These are all the deliveries: two,
  or one when the resolved socket is the sender's. The registry is left as it was.
\<close>

theorem whisper_deliveries:
  assumes "py_split 2 raw = [cmd, target_name, body]"
      and "find_first target_name (clients w) = Some target_sock"
      and "writable w target_sock" and "writable w client_socket"
  shows "fst (handle_whisper sender raw client_socket w) = None \<and>
         clients (snd (handle_whisper sender raw client_socket w)) = clients w \<and>
         deliveries (new_events w (snd (handle_whisper sender raw client_socket w))) =
           (target_sock, whisper_open @ sender @ [62, 32] @ body @ [10]) #
           (if target_sock = client_socket then []
            else [(client_socket,
                   whisper_sent_open @ sender @ [32, 45, 62, 32] @ target_name @ [62, 32] @ body @ [10])]) \<and>
         length (deliveries (new_events w (snd (handle_whisper sender raw client_socket w)))) =
           (if target_sock = client_socket then 1 else 2)"
  using assms by (simp add: handle_whisper_parts whisper_found)

theorem whisper_deliveries_witness:
  "deliveries (new_events three_sessions
       (snd (handle_whisper (ascii ''A'') (ascii ''/w B secret'') 1 three_sessions))) =
     [(2, whisper_open @ ascii ''A> secret'' @ [10]),
      (1, whisper_sent_open @ ascii ''A -> B> secret'' @ [10])] \<and>
   deliveries (new_events three_sessions
       (snd (handle_whisper (ascii ''A'') (ascii ''/w A hi'') 1 three_sessions))) =
     [(1, whisper_open @ ascii ''A> hi'' @ [10])]"
  using whisper_deliveries [where sender = "ascii ''A''" and client_socket = 1,
      OF split_examples(1) find_first_three(2) three_sessions_writable three_sessions_writable]
    whisper_deliveries [where sender = "ascii ''A''" and client_socket = 1,
      OF split_examples(2) find_first_three(1) three_sessions_writable three_sessions_writable]
  by (simp add: ascii_def)

text \<open>
  Claim C7: for every whisper whose target nickname is absent from the registry, the
  "target not found" notice, ending with the target's name, is written to the sender's
  socket (when it can be written); nothing else happens but the lookup under the lock:
  no other socket is written and the registry is left as it was.
\<close>

theorem whisper_unknown_target:
  assumes "py_split 2 raw = [cmd, target_name, body]"
      and "find_first target_name (clients w) = None"
      and "writable w client_socket"
  shows "handle_whisper sender raw client_socket w =
           (None, w\<lparr>log := log w @ [Acquire, Release, Sent client_socket (not_found @ target_name @ [10])]\<rparr>) \<and>
         deliveries (new_events w (snd (handle_whisper sender raw client_socket w))) =
           [(client_socket, not_found @ target_name @ [10])]"
  using assms by (simp add: handle_whisper_parts whisper_missing)

theorem whisper_unknown_target_witness:
  "deliveries (new_events three_sessions
       (snd (handle_whisper (ascii ''A'') (ascii ''/w Ghost hi'') 1 three_sessions))) =
     [(1, not_found @ ascii ''Ghost'' @ [10])]"
  using whisper_unknown_target [where sender = "ascii ''A''" and client_socket = 1,
      OF split_examples(3) find_first_three(3) three_sessions_writable]
  by simp

section \<open>The lock during a broadcast\<close>

lemma io_inside_attempts: "io_inside_lock True (map (attempt w text) ss @ [Release])"
  by (induction ss) (simp_all add: attempt_def)

lemma broadcast_new_events:
  "new_events w (broadcast text w) = Acquire # map (attempt w text) (registered w) @ [Release]"
  by (simp add: new_events_def broadcast_log)

text \<open>
  Claim C3, as stated, fails: the broadcast of a line to the three sessions writes to
  the sockets while the registry lock is held.
\<close>

theorem broadcast_writes_under_lock:
  "\<not> io_outside_lock False (new_events three_sessions (broadcast (ascii ''hi'') three_sessions))"
  by (simp add: broadcast_new_events three_sessions_registered attempt_def three_sessions_writable)

text \<open>
  Claim C3, amended: every broadcast takes the registry lock once, attempts one write
  per socket registered at that moment while it holds the lock, and releases the lock
  only after the last write: every write of a broadcast happens under the lock.
\<close>

theorem broadcast_holds_lock_throughout:
  "new_events w (broadcast text w) = Acquire # map (attempt w text) (registered w) @ [Release] \<and>
   io_inside_lock False (new_events w (broadcast text w))"
  by (simp add: broadcast_new_events io_inside_attempts)

theorem broadcast_holds_lock_throughout_witness:
  "new_events three_sessions_b_gone (broadcast (ascii ''hi'') three_sessions_b_gone) =
     [Acquire, Sent 1 (ascii ''hi'' @ [10]), SendFailed 2 (ascii ''hi'' @ [10]),
      Sent 3 (ascii ''hi'' @ [10]), Release] \<and>
   io_inside_lock False
     (new_events three_sessions_b_gone (broadcast (ascii ''hi'') three_sessions_b_gone))"
  using broadcast_holds_lock_throughout [of three_sessions_b_gone "ascii ''hi''"]
  by (simp add: b_gone_registered b_gone_writable attempt_def)

section \<open>Registration, cleanup and the join notice\<close>

lemma cleanup_unregistered:
  assumes "c \<notin> set (registered w)"
  shows "cleanup nickname c w =
     (if nickname \<noteq> []
      then broadcast_system (nickname @ left)
             (w\<lparr>log := log w @ [Acquire, Release], closed := insert c (closed w)\<rparr>)
      else w\<lparr>log := log w @ [Acquire, Release], closed := insert c (closed w)\<rparr>)"
  using assms
  by (simp add: cleanup_def Let_def dict_in_def registered_def acquire_def release_def close_sock_def)

text \<open>
  Claim C4: for every session whose first received line is empty after trimming, on a
  socket that is not in the registry (as a newly accepted one is), the worker returns,
  the connection is closed, the registry is unchanged and nothing is written to any
  socket: all the worker does besides closing is to take and release the lock once.
\<close>

theorem empty_nickname_discarded:
  assumes "strip data = []" and "client_socket \<notin> set (registered w)"
  shows "handle_client client_socket (Recv data # rest) w =
           (Returned, w\<lparr>closed := insert client_socket (closed w), log := log w @ [Acquire, Release]\<rparr>) \<and>
         client_socket \<in> closed (snd (handle_client client_socket (Recv data # rest) w)) \<and>
         clients (snd (handle_client client_socket (Recv data # rest) w)) = clients w \<and>
         new_events w (snd (handle_client client_socket (Recv data # rest) w)) = [Acquire, Release]"
proof -
  have "client_socket \<notin> set (registered (close_sock client_socket w))"
    using assms(2) by (simp add: registered_def close_sock_def)
  then have "cleanup [] client_socket (close_sock client_socket w) =
      w\<lparr>closed := insert client_socket (closed w), log := log w @ [Acquire, Release]\<rparr>"
    by (simp add: cleanup_unregistered) (simp add: close_sock_def)
  then have "handle_client client_socket (Recv data # rest) w =
      (Returned, w\<lparr>closed := insert client_socket (closed w), log := log w @ [Acquire, Release]\<rparr>)"
    using assms(1) by (simp add: handle_client_def try_finally_def)
  then show ?thesis by simp
qed

theorem empty_nickname_discarded_witness:
  "handle_client 4 [Recv (ascii ''   '' @ [10]), Recv (ascii ''hello'')] three_sessions =
     (Returned, three_sessions\<lparr>closed := insert 4 (closed three_sessions),
        log := log three_sessions @ [Acquire, Release]\<rparr>) \<and>
   clients (snd (handle_client 4 [Recv (ascii ''   '' @ [10]), Recv (ascii ''hello'')] three_sessions)) =
     clients three_sessions"
proof -
  have s: "strip (ascii ''   '' @ [10]) = []"
    by (simp add: strip_def ascii_def is_space_def)
  have r: "4 \<notin> set (registered three_sessions)"
    by (simp add: three_sessions_registered)
  show ?thesis
    using empty_nickname_discarded [OF s r] by simp
qed

lemma dict_set_new: "k \<notin> fst ` set d \<Longrightarrow> dict_set k v d = d @ [(k, v)]"
  by (induction d) auto

lemma register_new:
  "c \<notin> set (registered w) \<Longrightarrow>
   register c n w = w\<lparr>log := log w @ [Acquire, Release], clients := clients w @ [(c, n)]\<rparr>"
  by (simp add: register_def acquire_def release_def registered_def dict_set_new)

lemma cleanup_registered:
  assumes "distinct (registered w)" and "map_of (clients w) c = Some n"
  shows "cleanup nickname c w =
     (if n \<noteq> []
      then broadcast_system (n @ left)
             (w\<lparr>clients := filter (\<lambda>p. fst p \<noteq> c) (clients w),
                log := log w @ [Acquire, Release], closed := insert c (closed w)\<rparr>)
      else w\<lparr>clients := filter (\<lambda>p. fst p \<noteq> c) (clients w),
             log := log w @ [Acquire, Release], closed := insert c (closed w)\<rparr>)"
proof -
  from assms(2) have "c \<in> fst ` set (clients w)"
    by (metis domI dom_map_of_conv_image_fst)
  then have "dict_in c (clients (acquire w))"
    by (simp add: dict_in_def acquire_def)
  moreover have "dict_pop c (clients w) = (Some n, filter (\<lambda>p. fst p \<noteq> c) (clients w))"
    using assms dict_pop_fst [of c "clients w"] dict_pop_snd [of "clients w" c]
    by (simp add: registered_def prod_eq_iff)
  ultimately show ?thesis
    by (simp add: cleanup_def Let_def acquire_def release_def close_sock_def)
qed

lemma dict_pop_absent: "k \<notin> fst ` set d \<Longrightarrow> dict_pop k d = (None, d)"
  by (induction d) auto

lemma try_finally_returned:
  "try_finally nickname c (Returned, w) = (Returned, cleanup nickname c w)"
  by (simp add: try_finally_def)

lemma try_finally_escaped:
  "snd (try_finally nickname c (Escaped e, w)) = cleanup nickname c w"
  by (simp add: try_finally_def)

lemma handle_client_registers:
  "strip data \<noteq> [] \<Longrightarrow>
   handle_client c (Recv data # rest) w =
     try_finally (strip data) c
       (message_loop (strip data) c rest
          (broadcast_system (strip data @ joined) (register c (strip data) w)))"
  by (simp add: handle_client_def Let_def)

lemma registered_clients_update [simp]: "registered (w\<lparr>clients := d\<rparr>) = map fst d"
  by (simp add: registered_def)

lemma registered_closed_update [simp]: "registered (w\<lparr>closed := x\<rparr>) = registered w"
  by (simp add: registered_def)

lemma writable_closed_update:
  "writable (w\<lparr>closed := insert c (closed w)\<rparr>) s \<longleftrightarrow> s \<noteq> c \<and> writable w s"
  by (auto simp: writable_def send_fault_def)

text \<open>
  Claim C10: registration happens before the join notice is broadcast. For a newly
  accepted socket and a first line that is not empty after trimming, the socket is the
  last entry of the registry when the notice goes out, and the notice
  \<open>server> <nickname> has joined.\<close> (the source's literal is Korean) is written
  exactly once to every session registered before and to the joining socket itself
  (every peer being reachable). The worker then runs its message loop from that state.
\<close>

theorem join_notice_reaches_joiner:
  assumes "distinct (registered w)"
      and "\<forall>s \<in> set (registered w). writable w s"
      and "client_socket \<notin> set (registered w)" and "writable w client_socket"
      and "strip data \<noteq> []"
  shows "registered (register client_socket (strip data) w) = registered w @ [client_socket] \<and>
         handle_client client_socket (Recv data # rest) w =
           try_finally (strip data) client_socket
             (message_loop (strip data) client_socket rest
                (broadcast_system (strip data @ joined) (register client_socket (strip data) w))) \<and>
         fst (handle_client client_socket [Recv data] w) = Waiting \<and>
         new_events w (snd (handle_client client_socket [Recv data] w)) =
           [Acquire, Release, Acquire] @
           map (\<lambda>s. Sent s (server_prefix @ strip data @ joined @ [10])) (registered w @ [client_socket]) @
           [Release] \<and>
         (\<forall>s \<in> set (registered w @ [client_socket]).
            received s (new_events w (snd (handle_client client_socket [Recv data] w))) =
              [server_prefix @ strip data @ joined @ [10]])"
proof -
  let ?n = "strip data"
  let ?w1 = "register client_socket ?n w"
  have w1: "?w1 = w\<lparr>log := log w @ [Acquire, Release], clients := clients w @ [(client_socket, ?n)]\<rparr>"
    using assms(3) by (rule register_new)
  have r1: "registered ?w1 = registered w @ [client_socket]"
    by (simp add: w1) (simp add: registered_def)
  have wr1: "\<forall>s \<in> set (registered ?w1). writable ?w1 s"
    using assms(2,4) by (simp add: r1) (simp add: w1)
  have d1: "distinct (registered ?w1)"
    using assms(1,3) by (simp add: r1)
  have b: "broadcast_system (?n @ joined) ?w1 =
      ?w1\<lparr>log := log ?w1 @ [Acquire] @
        map (\<lambda>s. Sent s ((server_prefix @ ?n @ joined) @ [10])) (registered ?w1) @ [Release]\<rparr>"
    unfolding broadcast_system_def using wr1 by (rule broadcast_all_writable)
  have h: "handle_client client_socket [Recv data] w = (Waiting, broadcast_system (?n @ joined) ?w1)"
    using assms(5) by (simp add: handle_client_registers try_finally_def)
  have ev: "new_events w (snd (handle_client client_socket [Recv data] w)) =
      [Acquire, Release, Acquire] @
      map (\<lambda>s. Sent s (server_prefix @ ?n @ joined @ [10])) (registered w @ [client_socket]) @ [Release]"
    by (simp add: h b r1) (simp add: w1 new_events_def)
  have rc: "\<forall>s \<in> set (registered w @ [client_socket]).
      received s (new_events w (snd (handle_client client_socket [Recv data] w))) =
        [server_prefix @ ?n @ joined @ [10]]"
    using d1 by (simp only: ev received_append r1 [symmetric] received_sent_map) simp
  show ?thesis
    using r1 handle_client_registers [OF assms(5)] h ev rc by simp
qed

lemma strip_D: "strip (ascii ''D'' @ [10]) = ascii ''D''"
  by (simp add: strip_def ascii_def is_space_def)

theorem join_notice_reaches_joiner_witness:
  "received 4 (new_events three_sessions
      (snd (handle_client 4 [Recv (ascii ''D'' @ [10])] three_sessions))) =
     [server_prefix @ ascii ''D'' @ joined @ [10]] \<and>
   received 1 (new_events three_sessions
      (snd (handle_client 4 [Recv (ascii ''D'' @ [10])] three_sessions))) =
     [server_prefix @ ascii ''D'' @ joined @ [10]] \<and>
   registered (register 4 (ascii ''D'') three_sessions) = [1, 2, 3, 4]"
proof -
  have d: "distinct (registered three_sessions)"
    by (simp add: three_sessions_registered)
  have wr: "\<forall>s \<in> set (registered three_sessions). writable three_sessions s"
    by (simp add: three_sessions_writable)
  have r: "4 \<notin> set (registered three_sessions)"
    by (simp add: three_sessions_registered)
  have n: "strip (ascii ''D'' @ [10]) \<noteq> []"
    by (simp add: strip_D) (simp add: ascii_def)
  note t = join_notice_reaches_joiner [OF d wr r three_sessions_writable n, where rest = "[]"]
  show ?thesis
    using t [THEN conjunct1] t [THEN conjunct2, THEN conjunct2]
    by (simp add: strip_D three_sessions_registered)
qed

section \<open>Dead sockets\<close>

text \<open>
  Claim C8: in a broadcast, every registered socket whose write fails is removed from
  the registry and closed, and the others stay. The broadcast takes the lock once and
  attempts one write of its own text per registered socket, nothing more: it announces
  no departure. The owner's \<open>finally\<close> block, run in the state the broadcast has
  left with the nickname the worker holds, finds the socket gone and makes the one
  departure broadcast.
\<close>

theorem failed_write_deregisters_silently:
  assumes "distinct (registered w)"
  shows "new_events w (broadcast text w) =
           Acquire # map (attempt w text) (registered w) @ [Release] \<and>
         registered (broadcast text w) = filter (writable w) (registered w) \<and>
         (\<forall>s \<in> set (registered w). \<not> writable w s \<longrightarrow>
            SendFailed s (text @ [10]) \<in> set (new_events w (broadcast text w)) \<and>
            s \<notin> set (registered (broadcast text w)) \<and>
            s \<in> closed (broadcast text w) \<and>
            (\<forall>nickname. nickname \<noteq> [] \<longrightarrow>
               cleanup nickname s (broadcast text w) =
               broadcast_system (nickname @ left)
                 ((broadcast text w)\<lparr>log := log (broadcast text w) @ [Acquire, Release],
                    closed := insert s (closed (broadcast text w))\<rparr>)))"
proof -
  have ev: "new_events w (broadcast text w) =
      Acquire # map (attempt w text) (registered w) @ [Release]"
    by (rule broadcast_new_events)
  have rg: "registered (broadcast text w) = filter (writable w) (registered w)"
    using assms by (simp add: registered_def broadcast_clients filter_map comp_def)
  have "SendFailed s (text @ [10]) \<in> set (new_events w (broadcast text w)) \<and>
        s \<notin> set (registered (broadcast text w)) \<and>
        s \<in> closed (broadcast text w) \<and>
        (\<forall>nickname. nickname \<noteq> [] \<longrightarrow>
           cleanup nickname s (broadcast text w) =
           broadcast_system (nickname @ left)
             ((broadcast text w)\<lparr>log := log (broadcast text w) @ [Acquire, Release],
                closed := insert s (closed (broadcast text w))\<rparr>))"
    if s: "s \<in> set (registered w)" and nw: "\<not> writable w s" for s
  proof -
    have "attempt w text s \<in> set (map (attempt w text) (registered w))"
      using s by simp
    then have a: "SendFailed s (text @ [10]) \<in> set (new_events w (broadcast text w))"
      using nw by (simp add: ev attempt_def)
    have b: "s \<notin> set (registered (broadcast text w))"
      using nw by (simp add: rg)
    have c: "s \<in> closed (broadcast text w)"
      using assms s nw by (simp add: broadcast_closed)
    have d: "cleanup nickname s (broadcast text w) =
           broadcast_system (nickname @ left)
             ((broadcast text w)\<lparr>log := log (broadcast text w) @ [Acquire, Release],
                closed := insert s (closed (broadcast text w))\<rparr>)"
      if "nickname \<noteq> []" for nickname
      using that b by (simp add: cleanup_unregistered)
    from a b c d show ?thesis by blast
  qed
  with ev rg show ?thesis by blast
qed

theorem failed_write_deregisters_silently_witness:
  "new_events three_sessions_b_gone (broadcast (ascii ''A> hello'') three_sessions_b_gone) =
     [Acquire, Sent 1 (ascii ''A> hello'' @ [10]), SendFailed 2 (ascii ''A> hello'' @ [10]),
      Sent 3 (ascii ''A> hello'' @ [10]), Release] \<and>
   registered (broadcast (ascii ''A> hello'') three_sessions_b_gone) = [1, 3] \<and>
   2 \<in> closed (broadcast (ascii ''A> hello'') three_sessions_b_gone) \<and>
   cleanup (ascii ''B'') 2 (broadcast (ascii ''A> hello'') three_sessions_b_gone) =
     broadcast_system (ascii ''B'' @ left)
       ((broadcast (ascii ''A> hello'') three_sessions_b_gone)
          \<lparr>log := log (broadcast (ascii ''A> hello'') three_sessions_b_gone) @ [Acquire, Release],
           closed := insert 2 (closed (broadcast (ascii ''A> hello'') three_sessions_b_gone))\<rparr>)"
proof -
  have d: "distinct (registered three_sessions_b_gone)"
    by (simp add: b_gone_registered)
  have n: "ascii ''B'' \<noteq> []"
    by (simp add: ascii_def)
  note t = failed_write_deregisters_silently [OF d, of "ascii ''A> hello''"]
  have a: "new_events three_sessions_b_gone (broadcast (ascii ''A> hello'') three_sessions_b_gone) =
     [Acquire, Sent 1 (ascii ''A> hello'' @ [10]), SendFailed 2 (ascii ''A> hello'' @ [10]),
      Sent 3 (ascii ''A> hello'' @ [10]), Release]"
    using t [THEN conjunct1] by (simp add: b_gone_registered b_gone_writable attempt_def)
  have b: "registered (broadcast (ascii ''A> hello'') three_sessions_b_gone) = [1, 3]"
    using t [THEN conjunct2, THEN conjunct1] by (simp add: b_gone_registered b_gone_writable)
  have m: "2 \<in> set (registered three_sessions_b_gone)" "\<not> writable three_sessions_b_gone 2"
    by (simp_all add: b_gone_registered b_gone_writable)
  have c: "2 \<in> closed (broadcast (ascii ''A> hello'') three_sessions_b_gone)"
    using t [THEN conjunct2, THEN conjunct2] m by blast
  have e: "cleanup (ascii ''B'') 2 (broadcast (ascii ''A> hello'') three_sessions_b_gone) =
     broadcast_system (ascii ''B'' @ left)
       ((broadcast (ascii ''A> hello'') three_sessions_b_gone)
          \<lparr>log := log (broadcast (ascii ''A> hello'') three_sessions_b_gone) @ [Acquire, Release],
           closed := insert 2 (closed (broadcast (ascii ''A> hello'') three_sessions_b_gone))\<rparr>)"
    using t [THEN conjunct2, THEN conjunct2] m n by blast
  from a b c e show ?thesis by blast
qed

section \<open>Trimming and classification\<close>

lemma strip_newline: "strip (data @ [10]) = strip data"
proof (cases "dropWhile is_space data = []")
  case True
  then have "\<forall>x \<in> set data. is_space x" by (simp add: dropWhile_eq_Nil_conv)
  then have "dropWhile is_space (data @ [10]) = dropWhile is_space [10]"
    by (simp add: dropWhile_append2)
  then have "dropWhile is_space (data @ [10]) = []" by (simp add: is_space_def)
  with True show ?thesis by (simp only: strip_def rev.simps dropWhile.simps)
next
  case False
  then have "\<exists>x \<in> set data. \<not> is_space x" by (simp add: dropWhile_eq_Nil_conv)
  then have "dropWhile is_space (data @ [10]) = dropWhile is_space data @ [10]"
    by (auto simp: dropWhile_append1)
  moreover have "is_space 10" by (simp add: is_space_def)
  ultimately show ?thesis by (simp add: strip_def)
qed

lemma strip_decompose:
  "\<exists>a b. data = a @ strip data @ b \<and> list_all is_space a \<and> list_all is_space b"
proof -
  define a where "a = takeWhile is_space data"
  define m where "m = dropWhile is_space data"
  define b where "b = rev (takeWhile is_space (rev m))"
  have "data = a @ m" by (simp add: a_def m_def)
  moreover have "m = strip data @ b"
  proof -
    have "m = rev (takeWhile is_space (rev m) @ dropWhile is_space (rev m))"
      by (simp only: takeWhile_dropWhile_id rev_rev_ident)
    also have "\<dots> = rev (dropWhile is_space (rev m)) @ b"
      by (simp only: rev_append b_def)
    also have "rev (dropWhile is_space (rev m)) = strip data"
      by (simp only: strip_def m_def)
    finally show ?thesis .
  qed
  moreover have "list_all is_space a"
    by (auto simp: a_def list_all_iff dest: set_takeWhileD)
  moreover have "list_all is_space b"
    by (auto simp: b_def list_all_iff dest: set_takeWhileD)
  ultimately show ?thesis by blast
qed

lemma received_attempts:
  "distinct ss \<Longrightarrow>
   received s (map (attempt w text) ss) =
     (if s \<in> set ss \<and> writable w s then [text @ [10]] else [])"
  by (induction ss) (auto simp: attempt_def)

lemma received_broadcast_attempts:
  assumes "distinct (registered w)"
  shows "received s (new_events w (broadcast text w)) =
           (if s \<in> set (registered w) \<and> writable w s then [text @ [10]] else [])"
  using assms by (simp add: broadcast_new_events received_attempts)

text \<open>
  Claim C9: a received line is trimmed before it is classified and delivered. A line
  that is not empty and, once trimmed, is neither the quit command nor a whisper is
  broadcast as \<open><nickname>> <trimmed line>\<close>: under the lock, one write of that
  payload and a newline is attempted on every registered socket, so that (the registry's
  keys being distinct) every registered socket that can be written receives exactly
  that frame and no other socket receives anything, and the session goes on. The same
  holds of a line of whitespace only, with the empty body: the payload is
  \<open><nickname>> \<close>. The quit command is recognised on the trimmed line. The trimmed
  line is the line without its leading and trailing whitespace; it neither starts nor
  ends with whitespace, and a final newline makes no difference.
\<close>

theorem line_trimmed_before_dispatch:
  assumes "data \<noteq> []"
  shows "(strip data \<noteq> quit_token \<and> \<not> startswith (strip data) w_prefix \<and>
            \<not> startswith (strip data) kr_prefix \<longrightarrow>
            handle_line nickname client_socket data w =
              (Continue, broadcast (nickname @ [62, 32] @ strip data) w) \<and>
            new_events w (snd (handle_line nickname client_socket data w)) =
              Acquire # map (attempt w (nickname @ [62, 32] @ strip data)) (registered w) @ [Release] \<and>
            (distinct (registered w) \<longrightarrow>
               (\<forall>s. received s (new_events w (snd (handle_line nickname client_socket data w))) =
                  (if s \<in> set (registered w) \<and> writable w s
                   then [nickname @ [62, 32] @ strip data @ [10]] else [])))) \<and>
         (list_all is_space data \<longrightarrow>
            handle_line nickname client_socket data w =
              (Continue, broadcast (nickname @ [62, 32]) w) \<and>
            new_events w (snd (handle_line nickname client_socket data w)) =
              Acquire # map (attempt w (nickname @ [62, 32])) (registered w) @ [Release] \<and>
            (distinct (registered w) \<longrightarrow>
               (\<forall>s. received s (new_events w (snd (handle_line nickname client_socket data w))) =
                  (if s \<in> set (registered w) \<and> writable w s
                   then [nickname @ [62, 32, 10]] else [])))) \<and>
         (strip data = quit_token \<and> writable w client_socket \<longrightarrow>
            handle_line nickname client_socket data w =
              (Break, w\<lparr>log := log w @ [Sent client_socket (farewell @ [10])]\<rparr>)) \<and>
         (\<exists>a b. data = a @ strip data @ b \<and> list_all is_space a \<and> list_all is_space b) \<and>
         (strip data \<noteq> [] \<longrightarrow> \<not> is_space (hd (strip data)) \<and> \<not> is_space (last (strip data))) \<and>
         strip (data @ [10]) = strip data"
proof -
  have chat: "handle_line nickname client_socket data w =
        (Continue, broadcast (nickname @ [62, 32] @ strip data) w) \<and>
      new_events w (snd (handle_line nickname client_socket data w)) =
        Acquire # map (attempt w (nickname @ [62, 32] @ strip data)) (registered w) @ [Release] \<and>
      (distinct (registered w) \<longrightarrow>
         (\<forall>s. received s (new_events w (snd (handle_line nickname client_socket data w))) =
            (if s \<in> set (registered w) \<and> writable w s
             then [nickname @ [62, 32] @ strip data @ [10]] else [])))"
    if "strip data \<noteq> quit_token" and "\<not> startswith (strip data) w_prefix"
      and "\<not> startswith (strip data) kr_prefix"
  proof -
    have h: "handle_line nickname client_socket data w =
        (Continue, broadcast (nickname @ [62, 32] @ strip data) w)"
      using assms that by (rule handle_line_chat)
    have ev: "new_events w (snd (handle_line nickname client_socket data w)) =
        Acquire # map (attempt w (nickname @ [62, 32] @ strip data)) (registered w) @ [Release]"
      by (simp only: h snd_conv broadcast_new_events)
    have rc: "received s (new_events w (snd (handle_line nickname client_socket data w))) =
        (if s \<in> set (registered w) \<and> writable w s
         then [nickname @ [62, 32] @ strip data @ [10]] else [])"
      if "distinct (registered w)" for s
      using received_broadcast_attempts [OF that, of s "nickname @ [62, 32] @ strip data"]
      by (simp add: h)
    from h ev rc show ?thesis by blast
  qed
  have blank: "handle_line nickname client_socket data w =
        (Continue, broadcast (nickname @ [62, 32]) w) \<and>
      new_events w (snd (handle_line nickname client_socket data w)) =
        Acquire # map (attempt w (nickname @ [62, 32])) (registered w) @ [Release] \<and>
      (distinct (registered w) \<longrightarrow>
         (\<forall>s. received s (new_events w (snd (handle_line nickname client_socket data w))) =
            (if s \<in> set (registered w) \<and> writable w s
             then [nickname @ [62, 32, 10]] else [])))"
    if "list_all is_space data"
  proof -
    from that have e: "strip data = []" by (rule strip_all_space)
    have h: "handle_line nickname client_socket data w =
        (Continue, broadcast (nickname @ [62, 32]) w)"
      using assms e empty_not_special handle_line_chat [of data nickname client_socket w]
      by simp
    have ev: "new_events w (snd (handle_line nickname client_socket data w)) =
        Acquire # map (attempt w (nickname @ [62, 32])) (registered w) @ [Release]"
      by (simp only: h snd_conv broadcast_new_events)
    have rc: "received s (new_events w (snd (handle_line nickname client_socket data w))) =
        (if s \<in> set (registered w) \<and> writable w s
         then [nickname @ [62, 32, 10]] else [])"
      if "distinct (registered w)" for s
      using received_broadcast_attempts [OF that, of s "nickname @ [62, 32]"]
      by (simp add: h)
    from h ev rc show ?thesis by blast
  qed
  have quit: "handle_line nickname client_socket data w =
      (Break, w\<lparr>log := log w @ [Sent client_socket (farewell @ [10])]\<rparr>)"
    if "strip data = quit_token" and "writable w client_socket"
    using assms that by (simp add: handle_line_quit send_text_writable)
  have dec: "\<exists>a b. data = a @ strip data @ b \<and> list_all is_space a \<and> list_all is_space b"
    by (rule strip_decompose)
  have ends: "\<not> is_space (hd (strip data)) \<and> \<not> is_space (last (strip data))"
    if "strip data \<noteq> []"
    using that strip_hd strip_last by blast
  have nl: "strip (data @ [10]) = strip data"
    by (rule strip_newline)
  from chat blank quit dec ends nl show ?thesis by blast
qed

lemma spaces_example:
  "ascii ''  '' @ [9, 10] \<noteq> []" "list_all is_space (ascii ''  '' @ [9, 10])"
  by (simp_all add: ascii_def is_space_def)

lemma hello_padded:
  "ascii ''  hello '' @ [10] \<noteq> []" "strip (ascii ''  hello '' @ [10]) = ascii ''hello''"
  by (simp_all add: ascii_def strip_def is_space_def)

lemma quit_line_example: "quit_token @ [10] \<noteq> []"
  by simp

theorem line_trimmed_before_dispatch_witness:
  "new_events three_sessions_b_gone
     (snd (handle_line (ascii ''A'') 1 (ascii ''  hello '' @ [10]) three_sessions_b_gone)) =
     [Acquire, Sent 1 (ascii ''A> hello'' @ [10]), SendFailed 2 (ascii ''A> hello'' @ [10]),
      Sent 3 (ascii ''A> hello'' @ [10]), Release] \<and>
   received 3 (new_events three_sessions_b_gone
     (snd (handle_line (ascii ''A'') 1 (ascii ''  hello '' @ [10]) three_sessions_b_gone))) =
     [ascii ''A> hello'' @ [10]] \<and>
   fst (handle_line (ascii ''A'') 1 (ascii ''  '' @ [9, 10]) three_sessions) = Continue \<and>
   new_events three_sessions
     (snd (handle_line (ascii ''A'') 1 (ascii ''  '' @ [9, 10]) three_sessions)) =
     [Acquire, Sent 1 (ascii ''A> '' @ [10]), Sent 2 (ascii ''A> '' @ [10]),
      Sent 3 (ascii ''A> '' @ [10]), Release] \<and>
   received 2 (new_events three_sessions
     (snd (handle_line (ascii ''A'') 1 (ascii ''  '' @ [9, 10]) three_sessions))) =
     [ascii ''A> '' @ [10]] \<and>
   handle_line (ascii ''A'') 1 (quit_token @ [10]) three_sessions =
     (Break, three_sessions\<lparr>log := log three_sessions @ [Sent 1 (farewell @ [10])]\<rparr>) \<and>
   \<not> is_space (hd (strip (ascii ''  hello '' @ [10]))) \<and>
   \<not> is_space (last (strip (ascii ''  hello '' @ [10])))"
proof -
  have q: "strip (ascii ''  hello '' @ [10]) \<noteq> quit_token \<and>
      \<not> startswith (strip (ascii ''  hello '' @ [10])) w_prefix \<and>
      \<not> startswith (strip (ascii ''  hello '' @ [10])) kr_prefix"
    using hello_is_chat by (simp add: hello_padded(2))
  have ne: "strip (ascii ''  hello '' @ [10]) \<noteq> []"
    using hello_is_chat(1) by (simp add: hello_padded(2))
  have dg: "distinct (registered three_sessions_b_gone)"
    by (simp add: b_gone_registered)
  have d3: "distinct (registered three_sessions)"
    by (simp add: three_sessions_registered)
  note t = line_trimmed_before_dispatch [OF hello_padded(1),
      where nickname = "ascii ''A''" and client_socket = 1 and w = three_sessions_b_gone]
  note u = line_trimmed_before_dispatch [OF spaces_example(1),
      where nickname = "ascii ''A''" and client_socket = 1 and w = three_sessions]
  have a1: "new_events three_sessions_b_gone
     (snd (handle_line (ascii ''A'') 1 (ascii ''  hello '' @ [10]) three_sessions_b_gone)) =
     Acquire # map (attempt three_sessions_b_gone (ascii ''A'' @ [62, 32] @ strip (ascii ''  hello '' @ [10])))
       (registered three_sessions_b_gone) @ [Release]"
    using t [THEN conjunct1] q by blast
  have a2: "received 3 (new_events three_sessions_b_gone
     (snd (handle_line (ascii ''A'') 1 (ascii ''  hello '' @ [10]) three_sessions_b_gone))) =
     (if 3 \<in> set (registered three_sessions_b_gone) \<and> writable three_sessions_b_gone 3
      then [ascii ''A'' @ [62, 32] @ strip (ascii ''  hello '' @ [10]) @ [10]] else [])"
    using t [THEN conjunct1] q dg by blast
  have b0: "fst (handle_line (ascii ''A'') 1 (ascii ''  '' @ [9, 10]) three_sessions) = Continue"
    using u [THEN conjunct2, THEN conjunct1] spaces_example(2) by simp
  have b1: "new_events three_sessions
     (snd (handle_line (ascii ''A'') 1 (ascii ''  '' @ [9, 10]) three_sessions)) =
     Acquire # map (attempt three_sessions (ascii ''A'' @ [62, 32])) (registered three_sessions) @ [Release]"
    using u [THEN conjunct2, THEN conjunct1] spaces_example(2) by blast
  have b2: "received 2 (new_events three_sessions
     (snd (handle_line (ascii ''A'') 1 (ascii ''  '' @ [9, 10]) three_sessions))) =
     (if 2 \<in> set (registered three_sessions) \<and> writable three_sessions 2
      then [ascii ''A'' @ [62, 32, 10]] else [])"
    using u [THEN conjunct2, THEN conjunct1] spaces_example(2) d3 by blast
  have c: "handle_line (ascii ''A'') 1 (quit_token @ [10]) three_sessions =
      (Break, three_sessions\<lparr>log := log three_sessions @ [Sent 1 (farewell @ [10])]\<rparr>)"
    using line_trimmed_before_dispatch [OF quit_line_example,
        THEN conjunct2, THEN conjunct2, THEN conjunct1]
      strip_quit three_sessions_writable [of 1] by blast
  have d: "\<not> is_space (hd (strip (ascii ''  hello '' @ [10]))) \<and>
      \<not> is_space (last (strip (ascii ''  hello '' @ [10])))"
    using t [THEN conjunct2, THEN conjunct2, THEN conjunct2, THEN conjunct2, THEN conjunct1] ne
    by blast
  have a1': "new_events three_sessions_b_gone
     (snd (handle_line (ascii ''A'') 1 (ascii ''  hello '' @ [10]) three_sessions_b_gone)) =
     [Acquire, Sent 1 (ascii ''A> hello'' @ [10]), SendFailed 2 (ascii ''A> hello'' @ [10]),
      Sent 3 (ascii ''A> hello'' @ [10]), Release]"
    using a1 by (simp add: b_gone_registered b_gone_writable three_sessions_registered three_sessions_writable attempt_def ascii_def strip_def is_space_def)
  have a2': "received 3 (new_events three_sessions_b_gone
     (snd (handle_line (ascii ''A'') 1 (ascii ''  hello '' @ [10]) three_sessions_b_gone))) =
     [ascii ''A> hello'' @ [10]]"
    using a2 by (simp add: b_gone_registered b_gone_writable three_sessions_registered three_sessions_writable attempt_def ascii_def strip_def is_space_def)
  have b1': "new_events three_sessions
     (snd (handle_line (ascii ''A'') 1 (ascii ''  '' @ [9, 10]) three_sessions)) =
     [Acquire, Sent 1 (ascii ''A> '' @ [10]), Sent 2 (ascii ''A> '' @ [10]),
      Sent 3 (ascii ''A> '' @ [10]), Release]"
    using b1 by (simp add: b_gone_registered b_gone_writable three_sessions_registered three_sessions_writable attempt_def ascii_def strip_def is_space_def)
  have b2': "received 2 (new_events three_sessions
     (snd (handle_line (ascii ''A'') 1 (ascii ''  '' @ [9, 10]) three_sessions))) =
     [ascii ''A> '' @ [10]]"
    using b2 by (simp add: b_gone_registered b_gone_writable three_sessions_registered three_sessions_writable attempt_def ascii_def strip_def is_space_def)
  from a1' a2' b0 b1' b2' c d show ?thesis by blast
qed

lemma startswith_subset: "startswith s p \<Longrightarrow> set p \<subseteq> set s"
proof -
  assume "startswith s p"
  then have e: "take (length p) s = p" by (simp add: startswith_def)
  have "set (take (length p) s) \<subseteq> set s" by (rule set_take_subset)
  then show ?thesis by (simp only: e)
qed

lemma prefix_has_space:
  assumes "startswith s w_prefix \<or> startswith s kr_prefix"
  shows "2 \<le> length (space_tokens s)"
proof -
  have "32 \<in> set w_prefix" "32 \<in> set kr_prefix"
    by (simp_all add: w_prefix_def kr_prefix_def)
  moreover have "set w_prefix \<subseteq> set s \<or> set kr_prefix \<subseteq> set s"
    using assms startswith_subset [of s w_prefix] startswith_subset [of s kr_prefix] by blast
  ultimately have "32 \<in> set s"
    by blast
  then have "count_list s 32 \<noteq> 0"
    by (simp add: count_list_0_iff)
  then show ?thesis
    by (simp add: space_tokens_length)
qed

lemma bare_command_is_chat:
  assumes "data \<noteq> []" and "strip data = butlast w_prefix \<or> strip data = butlast kr_prefix"
  shows "handle_line nickname c data w =
           (Continue, broadcast (nickname @ [62, 32] @ strip data) w)"
proof -
  from assms(2) have "strip data \<noteq> quit_token \<and> \<not> startswith (strip data) w_prefix \<and>
      \<not> startswith (strip data) kr_prefix"
    by (auto simp: quit_token_def startswith_def w_prefix_def kr_prefix_def)
  with assms(1) show ?thesis by (simp add: handle_line_chat)
qed

lemma bare_command_one_token:
  "strip data = butlast w_prefix \<or> strip data = butlast kr_prefix \<Longrightarrow>
   length (space_tokens (strip data)) = 1"
  by (auto simp: space_tokens_length w_prefix_def kr_prefix_def)

lemma bare_w_example:
  "ascii ''/w'' @ [10] \<noteq> []" "strip (ascii ''/w'' @ [10]) = butlast w_prefix"
  "butlast w_prefix = ascii ''/w''"
  by (simp_all add: ascii_def strip_def is_space_def w_prefix_def)

text \<open>
  Claim C6, as stated, fails: the line \<open>/w\<close> begins with the whisper command and has
  one space-separated token, fewer than three, yet no usage notice is sent: the line
  is broadcast as the chat line \<open>A> /w\<close>, to socket 2 as well as to the sender.
\<close>

theorem bare_whisper_command_is_broadcast:
  "length (space_tokens (strip (ascii ''/w'' @ [10]))) = 1 \<and>
   received 2 (new_events three_sessions
     (snd (handle_line (ascii ''A'') 1 (ascii ''/w'' @ [10]) three_sessions))) =
     [ascii ''A> /w'' @ [10]] \<and>
   received 1 (new_events three_sessions
     (snd (handle_line (ascii ''A'') 1 (ascii ''/w'' @ [10]) three_sessions))) =
     [ascii ''A> /w'' @ [10]]"
proof -
  have b: "strip (ascii ''/w'' @ [10]) = butlast w_prefix \<or>
      strip (ascii ''/w'' @ [10]) = butlast kr_prefix"
    by (simp add: bare_w_example(2))
  have h: "handle_line (ascii ''A'') 1 (ascii ''/w'' @ [10]) three_sessions =
      (Continue, broadcast (ascii ''A'' @ [62, 32] @ ascii ''/w'') three_sessions)"
    using bare_command_is_chat [OF bare_w_example(1) b] by (simp add: bare_w_example)
  have d: "distinct (registered three_sessions)"
    by (simp add: three_sessions_registered)
  have f: "(ascii ''A'' @ [62, 32] @ ascii ''/w'') @ [10] = ascii ''A> /w'' @ [10]"
    by (simp add: ascii_def)
  have r: "received s (new_events three_sessions
      (snd (handle_line (ascii ''A'') 1 (ascii ''/w'' @ [10]) three_sessions))) =
      (if s \<in> set (registered three_sessions) \<and> writable three_sessions s
       then [ascii ''A> /w'' @ [10]] else [])" for s
    using received_broadcast_attempts [OF d, of s "ascii ''A'' @ [62, 32] @ ascii ''/w''"]
    by (simp only: h snd_conv f)
  have t: "length (space_tokens (strip (ascii ''/w'' @ [10]))) = 1"
    using b by (rule bare_command_one_token)
  from t r [of 2] r [of 1] show ?thesis
    by (simp add: three_sessions_registered three_sessions_writable)
qed

text \<open>
  Claim C6, amended: a received line whose trimmed text begins with a whisper prefix
  including its space (\<open>/w \<close> or the Korean one) has at least two space-separated
  tokens. With fewer than three the usage notice is written to the sender's socket and
  the session goes on (when that socket can be written), and in any case no other socket
  is written and the registry is unchanged; with at least three the line has three
  parts and the whisper of the second and third is carried out. A line whose trimmed
  text is the whisper command alone, one token, is not a whisper: it is broadcast as a
  chat line to every registered socket and the session goes on.
\<close>

theorem short_whisper_gets_usage:
  assumes "data \<noteq> []"
  shows "(startswith (strip data) w_prefix \<or> startswith (strip data) kr_prefix \<longrightarrow>
            2 \<le> length (space_tokens (strip data)) \<and>
            (length (space_tokens (strip data)) < 3 \<and> writable w client_socket \<longrightarrow>
               handle_line nickname client_socket data w =
                 (Continue, w\<lparr>log := log w @ [Sent client_socket (usage @ [10])]\<rparr>)) \<and>
            (length (space_tokens (strip data)) < 3 \<longrightarrow>
               clients (snd (handle_line nickname client_socket data w)) = clients w \<and>
               (\<forall>s. s \<noteq> client_socket \<longrightarrow>
                  received s (new_events w (snd (handle_line nickname client_socket data w))) = [])) \<and>
            (3 \<le> length (space_tokens (strip data)) \<longrightarrow>
               (\<exists>cmd target_name body.
                  py_split 2 (strip data) = [cmd, target_name, body] \<and>
                  handle_line nickname client_socket data w =
                    (case whisper nickname target_name body client_socket w of
                       (None, w1) \<Rightarrow> (Continue, w1)
                     | (Some e, w1) \<Rightarrow> (Raise e, w1))))) \<and>
         (strip data = butlast w_prefix \<or> strip data = butlast kr_prefix \<longrightarrow>
            length (space_tokens (strip data)) = 1 \<and>
            fst (handle_line nickname client_socket data w) = Continue \<and>
            new_events w (snd (handle_line nickname client_socket data w)) =
              Acquire # map (attempt w (nickname @ [62, 32] @ strip data)) (registered w) @ [Release])"
proof -
  have whisper_case:
    "2 \<le> length (space_tokens (strip data)) \<and>
     (length (space_tokens (strip data)) < 3 \<and> writable w client_socket \<longrightarrow>
        handle_line nickname client_socket data w =
          (Continue, w\<lparr>log := log w @ [Sent client_socket (usage @ [10])]\<rparr>)) \<and>
     (length (space_tokens (strip data)) < 3 \<longrightarrow>
        clients (snd (handle_line nickname client_socket data w)) = clients w \<and>
        (\<forall>s. s \<noteq> client_socket \<longrightarrow>
           received s (new_events w (snd (handle_line nickname client_socket data w))) = [])) \<and>
     (3 \<le> length (space_tokens (strip data)) \<longrightarrow>
        (\<exists>cmd target_name body.
           py_split 2 (strip data) = [cmd, target_name, body] \<and>
           handle_line nickname client_socket data w =
             (case whisper nickname target_name body client_socket w of
                (None, w1) \<Rightarrow> (Continue, w1)
              | (Some e, w1) \<Rightarrow> (Raise e, w1))))"
    if pre: "startswith (strip data) w_prefix \<or> startswith (strip data) kr_prefix"
  proof -
    note hl = handle_line_whisper [OF assms pre, of nickname client_socket w]
    have two: "2 \<le> length (space_tokens (strip data))"
      using pre by (rule prefix_has_space)
    have short: "handle_whisper nickname (strip data) client_socket w =
        send_text client_socket usage w"
      if "length (space_tokens (strip data)) < 3"
      using that by (simp add: handle_whisper_def Let_def few_tokens_iff)
    have a: "handle_line nickname client_socket data w =
        (Continue, w\<lparr>log := log w @ [Sent client_socket (usage @ [10])]\<rparr>)"
      if "length (space_tokens (strip data)) < 3" and "writable w client_socket"
      using that by (simp add: hl short send_text_writable)
    have b: "clients (snd (handle_line nickname client_socket data w)) = clients w \<and>
        (\<forall>s. s \<noteq> client_socket \<longrightarrow>
           received s (new_events w (snd (handle_line nickname client_socket data w))) = [])"
      if "length (space_tokens (strip data)) < 3"
    proof (cases "writable w client_socket")
      case True
      with that show ?thesis by (simp add: a)
    next
      case False
      then obtain e where "send_text client_socket usage w =
          (Some e, w\<lparr>log := log w @ [SendFailed client_socket (usage @ [10])]\<rparr>)"
        using send_text_unwritable by blast
      with that show ?thesis by (simp add: hl short)
    qed
    have c: "\<exists>cmd target_name body.
         py_split 2 (strip data) = [cmd, target_name, body] \<and>
         handle_line nickname client_socket data w =
           (case whisper nickname target_name body client_socket w of
              (None, w1) \<Rightarrow> (Continue, w1)
            | (Some e, w1) \<Rightarrow> (Raise e, w1))"
      if "3 \<le> length (space_tokens (strip data))"
    proof -
      from that obtain cmd t b where p: "py_split 2 (strip data) = [cmd, t, b]"
        using three_parts by blast
      then have "handle_whisper nickname (strip data) client_socket w =
          whisper nickname t b client_socket w"
        by (rule handle_whisper_parts)
      with p show ?thesis by (simp add: hl)
    qed
    from two a b c show ?thesis by blast
  qed
  have bare_case:
    "length (space_tokens (strip data)) = 1 \<and>
     fst (handle_line nickname client_socket data w) = Continue \<and>
     new_events w (snd (handle_line nickname client_socket data w)) =
       Acquire # map (attempt w (nickname @ [62, 32] @ strip data)) (registered w) @ [Release]"
    if bare: "strip data = butlast w_prefix \<or> strip data = butlast kr_prefix"
  proof -
    have h: "handle_line nickname client_socket data w =
        (Continue, broadcast (nickname @ [62, 32] @ strip data) w)"
      using assms bare by (rule bare_command_is_chat)
    have "new_events w (snd (handle_line nickname client_socket data w)) =
        Acquire # map (attempt w (nickname @ [62, 32] @ strip data)) (registered w) @ [Release]"
      by (simp only: h snd_conv broadcast_new_events)
    moreover have "fst (handle_line nickname client_socket data w) = Continue"
      by (simp add: h)
    ultimately show ?thesis
      using bare_command_one_token [OF bare] by blast
  qed
  from whisper_case bare_case show ?thesis by blast
qed

lemma short_whisper_example:
  "ascii ''/w B'' @ [10] \<noteq> []" "strip (ascii ''/w B'' @ [10]) = ascii ''/w B''"
  "startswith (ascii ''/w B'') w_prefix" "length (space_tokens (ascii ''/w B'')) = 2"
  by (simp_all add: ascii_def strip_def is_space_def startswith_def w_prefix_def
      space_tokens_length)

lemma long_whisper_example:
  "ascii ''/w B secret'' @ [10] \<noteq> []" "strip (ascii ''/w B secret'' @ [10]) = ascii ''/w B secret''"
  "startswith (ascii ''/w B secret'') w_prefix" "length (space_tokens (ascii ''/w B secret'')) = 3"
  by (simp_all add: ascii_def strip_def is_space_def startswith_def w_prefix_def
      space_tokens_length)

theorem short_whisper_gets_usage_witness:
  "handle_line (ascii ''A'') 1 (ascii ''/w B'' @ [10]) three_sessions =
     (Continue, three_sessions\<lparr>log := log three_sessions @ [Sent 1 (usage @ [10])]\<rparr>) \<and>
   received 2 (new_events three_sessions
     (snd (handle_line (ascii ''A'') 1 (ascii ''/w B'' @ [10]) three_sessions))) = [] \<and>
   handle_line (ascii ''A'') 1 (ascii ''/w B secret'' @ [10]) three_sessions =
     (case whisper (ascii ''A'') (ascii ''B'') (ascii ''secret'') 1 three_sessions of
        (None, w1) \<Rightarrow> (Continue, w1)
      | (Some e, w1) \<Rightarrow> (Raise e, w1)) \<and>
   new_events three_sessions
     (snd (handle_line (ascii ''A'') 1 (ascii ''/w'' @ [10]) three_sessions)) =
     [Acquire, Sent 1 (ascii ''A> /w'' @ [10]), Sent 2 (ascii ''A> /w'' @ [10]),
      Sent 3 (ascii ''A> /w'' @ [10]), Release]"
proof -
  have p1: "startswith (strip (ascii ''/w B'' @ [10])) w_prefix \<or>
      startswith (strip (ascii ''/w B'' @ [10])) kr_prefix"
    by (simp add: short_whisper_example)
  have p2: "startswith (strip (ascii ''/w B secret'' @ [10])) w_prefix \<or>
      startswith (strip (ascii ''/w B secret'' @ [10])) kr_prefix"
    by (simp add: long_whisper_example)
  have p3: "strip (ascii ''/w'' @ [10]) = butlast w_prefix \<or>
      strip (ascii ''/w'' @ [10]) = butlast kr_prefix"
    by (simp add: bare_w_example(2))
  note t1 = short_whisper_gets_usage [OF short_whisper_example(1),
      where nickname = "ascii ''A''" and client_socket = 1 and w = three_sessions,
      THEN conjunct1, rule_format, OF p1]
  note t2 = short_whisper_gets_usage [OF long_whisper_example(1),
      where nickname = "ascii ''A''" and client_socket = 1 and w = three_sessions,
      THEN conjunct1, rule_format, OF p2]
  note t3 = short_whisper_gets_usage [OF bare_w_example(1),
      where nickname = "ascii ''A''" and client_socket = 1 and w = three_sessions,
      THEN conjunct2, rule_format, OF p3]
  have a: "handle_line (ascii ''A'') 1 (ascii ''/w B'' @ [10]) three_sessions =
     (Continue, three_sessions\<lparr>log := log three_sessions @ [Sent 1 (usage @ [10])]\<rparr>)"
    using t1 [THEN conjunct2, THEN conjunct1] three_sessions_writable [of 1]
    by (simp add: short_whisper_example)
  have b: "received 2 (new_events three_sessions
     (snd (handle_line (ascii ''A'') 1 (ascii ''/w B'' @ [10]) three_sessions))) = []"
    using t1 [THEN conjunct2, THEN conjunct2, THEN conjunct1]
    by (simp add: short_whisper_example)
  have c: "handle_line (ascii ''A'') 1 (ascii ''/w B secret'' @ [10]) three_sessions =
     (case whisper (ascii ''A'') (ascii ''B'') (ascii ''secret'') 1 three_sessions of
        (None, w1) \<Rightarrow> (Continue, w1)
      | (Some e, w1) \<Rightarrow> (Raise e, w1))"
    using t2 [THEN conjunct2, THEN conjunct2, THEN conjunct2]
    by (simp add: long_whisper_example split_examples)
  have d: "new_events three_sessions
     (snd (handle_line (ascii ''A'') 1 (ascii ''/w'' @ [10]) three_sessions)) =
     [Acquire, Sent 1 (ascii ''A> /w'' @ [10]), Sent 2 (ascii ''A> /w'' @ [10]),
      Sent 3 (ascii ''A> /w'' @ [10]), Release]"
    using t3 [THEN conjunct2, THEN conjunct2]
    by (simp add: three_sessions_registered three_sessions_writable attempt_def ascii_def
        strip_def is_space_def)
  from a b c d show ?thesis by blast
qed

section \<open>Quitting\<close>

lemma strip_Nil [simp]: "strip [] = []"
  by (simp add: strip_def)

lemma drop_dead_unregistered:
  assumes "c \<notin> set (registered w)" and "c \<in> closed w"
  shows "drop_dead [c] w = w"
proof -
  have "dict_pop c (clients w) = (None, clients w)"
    using assms(1) by (simp add: registered_def dict_pop_absent)
  moreover have "insert c (closed w) = closed w"
    using assms(2) by auto
  ultimately show ?thesis by (simp add: close_sock_def)
qed

text \<open>
  Claim C5: removing a socket from the registry is idempotent: popping a socket just
  registered gives its nickname and the registry as it was before, and popping it
  again gives nothing and changes nothing. When a session registers and then sends the
  quit command (every peer reachable), the worker returns, the registry is as before,
  every other session is written the join notice and then the departure notice, once
  each, the leaving socket gets the join notice and the farewell, and a later removal of
  that socket by the dead-socket loop of a broadcast changes nothing and writes nothing.
\<close>

theorem departure_announced_once:
  assumes "distinct (registered w)"
      and "\<forall>s \<in> set (registered w). writable w s"
      and "client_socket \<notin> set (registered w)" and "writable w client_socket"
      and "strip first \<noteq> []" and "strip line = quit_token"
  shows "dict_pop client_socket (clients (register client_socket (strip first) w)) =
           (Some (strip first), clients w) \<and>
         dict_pop client_socket (clients w) = (None, clients w) \<and>
         fst (handle_client client_socket (Recv first # Recv line # rest) w) = Returned \<and>
         clients (snd (handle_client client_socket (Recv first # Recv line # rest) w)) = clients w \<and>
         (\<forall>s \<in> set (registered w).
            received s (new_events w (snd (handle_client client_socket (Recv first # Recv line # rest) w))) =
              [server_prefix @ strip first @ joined @ [10], server_prefix @ strip first @ left @ [10]]) \<and>
         received client_socket
            (new_events w (snd (handle_client client_socket (Recv first # Recv line # rest) w))) =
              [server_prefix @ strip first @ joined @ [10], farewell @ [10]] \<and>
         drop_dead [client_socket] (snd (handle_client client_socket (Recv first # Recv line # rest) w)) =
           snd (handle_client client_socket (Recv first # Recv line # rest) w)"
proof -
  let ?c = client_socket
  let ?n = "strip first"
  let ?join = "server_prefix @ ?n @ joined"
  let ?left = "server_prefix @ ?n @ left"
  let ?w1 = "register ?c ?n w"
  have nreg: "?c \<notin> fst ` set (clients w)"
    using assms(3) by (simp add: registered_def)
  have w1: "?w1 = w\<lparr>log := log w @ [Acquire, Release], clients := clients w @ [(?c, ?n)]\<rparr>"
    using assms(3) by (rule register_new)
  have r1: "registered ?w1 = registered w @ [?c]"
    by (simp add: w1) (simp add: registered_def)
  have wr1: "\<forall>s \<in> set (registered ?w1). writable ?w1 s"
    using assms(2,4) by (simp add: r1) (simp add: w1)
  have d1: "distinct (registered ?w1)"
    using assms(1,3) by (simp add: r1)
  define w2 where "w2 = broadcast_system (?n @ joined) ?w1"
  have w2: "w2 = w\<lparr>clients := clients w @ [(?c, ?n)],
      log := log w @ [Acquire, Release, Acquire] @
        map (\<lambda>s. Sent s (?join @ [10])) (registered w @ [?c]) @ [Release]\<rparr>"
    unfolding w2_def broadcast_system_def
    by (simp add: broadcast_all_writable [OF wr1] r1) (simp add: w1)
  have line: "line \<noteq> []"
    using assms(6) quit_token_nonempty by auto
  define w3 where "w3 = w2\<lparr>log := log w2 @ [Sent ?c (farewell @ [10])]\<rparr>"
  have wc2: "writable w2 ?c"
    using assms(4) by (simp add: w2)
  have hl: "handle_line ?n ?c line w2 = (Break, w3)"
    using line assms(6) wc2 by (simp add: handle_line_quit send_text_writable w3_def)
  have ml: "message_loop ?n ?c (Recv line # rest) w2 = (Returned, w3)"
    by (simp add: hl)
  have hc: "handle_client ?c (Recv first # Recv line # rest) w = (Returned, cleanup ?n ?c w3)"
    using assms(5) ml by (simp add: handle_client_registers w2_def try_finally_returned)
  have c3: "clients w3 = clients w @ [(?c, ?n)]"
    by (simp add: w3_def w2)
  have d3: "distinct (registered w3)"
    using d1 by (simp add: registered_def c3 r1 [unfolded registered_def] w1)
  have m3: "map_of (clients w3) ?c = Some ?n"
    using nreg by (simp add: c3 map_add_Some_iff map_of_eq_None_iff)
  have f3: "filter (\<lambda>p. fst p \<noteq> ?c) (clients w3) = clients w"
    using nreg by (auto simp: c3 intro: filter_True)
  define w5 where "w5 = w3\<lparr>clients := clients w, log := log w3 @ [Acquire, Release],
      closed := insert ?c (closed w3)\<rparr>"
  have cl: "cleanup ?n ?c w3 = broadcast_system (?n @ left) w5"
    using assms(5) by (simp add: cleanup_registered [OF d3 m3] f3 w5_def)
  have r5: "registered w5 = registered w"
    by (simp add: w5_def registered_def)
  have wr5: "\<forall>s \<in> set (registered w5). writable w5 s"
    using assms(2,3) by (auto simp: r5 w5_def w3_def w2 writable_def send_fault_def)
  define w6 where "w6 = broadcast_system (?n @ left) w5"
  have w6: "w6 = w5\<lparr>log := log w5 @ [Acquire] @
        map (\<lambda>s. Sent s (?left @ [10])) (registered w) @ [Release]\<rparr>"
    unfolding w6_def broadcast_system_def
    by (simp add: broadcast_all_writable [OF wr5] r5)
  have res: "handle_client ?c (Recv first # Recv line # rest) w = (Returned, w6)"
    by (simp add: hc cl w6_def)
  have lg: "new_events w w6 =
      [Acquire, Release, Acquire] @ map (\<lambda>s. Sent s (?join @ [10])) (registered w @ [?c]) @
      [Release, Sent ?c (farewell @ [10]), Acquire, Release, Acquire] @
      map (\<lambda>s. Sent s (?left @ [10])) (registered w) @ [Release]"
    by (simp add: w6 w5_def w3_def w2 new_events_def)
  have dc: "distinct (registered w @ [?c])"
    using assms(1,3) by simp
  have p1: "dict_pop ?c (clients ?w1) = (Some ?n, clients w)"
  proof -
    have "clients ?w1 = clients w3" by (simp add: w1 c3)
    then show ?thesis
      using dict_pop_fst [of ?c "clients w3"] dict_pop_snd [of "clients w3" ?c] d3 m3 f3
      by (simp add: registered_def prod_eq_iff)
  qed
  have p2: "dict_pop ?c (clients w) = (None, clients w)"
    using nreg by (rule dict_pop_absent)
  have cw6: "clients w6 = clients w"
    by (simp add: w6 w5_def)
  have rs: "received s (new_events w w6) = [?join @ [10], ?left @ [10]]"
    if "s \<in> set (registered w)" for s
  proof -
    from that assms(3) have "s \<noteq> ?c" by auto
    with that show ?thesis
      using assms(1) dc
      by (simp only: lg received_append received_sent_map) simp
  qed
  have rc: "received ?c (new_events w w6) = [?join @ [10], farewell @ [10]]"
    using assms(1,3) dc
    by (simp only: lg received_append received_sent_map) simp
  have dd: "drop_dead [?c] w6 = w6"
  proof (rule drop_dead_unregistered)
    show "?c \<notin> set (registered w6)"
      using assms(3) by (simp add: registered_def cw6)
    show "?c \<in> closed w6"
      by (simp add: w6 w5_def)
  qed
  from p1 p2 cw6 rs rc dd show ?thesis
    by (simp add: res)
qed

theorem departure_announced_once_witness:
  "dict_pop 4 (clients (register 4 (ascii ''D'') three_sessions)) =
     (Some (ascii ''D''), clients three_sessions) \<and>
   dict_pop 4 (clients three_sessions) = (None, clients three_sessions) \<and>
   fst (handle_client 4 [Recv (ascii ''D'' @ [10]), Recv (quit_token @ [10])] three_sessions) = Returned \<and>
   clients (snd (handle_client 4 [Recv (ascii ''D'' @ [10]), Recv (quit_token @ [10])] three_sessions)) =
     clients three_sessions \<and>
   received 2 (new_events three_sessions
       (snd (handle_client 4 [Recv (ascii ''D'' @ [10]), Recv (quit_token @ [10])] three_sessions))) =
     [server_prefix @ ascii ''D'' @ joined @ [10], server_prefix @ ascii ''D'' @ left @ [10]] \<and>
   received 4 (new_events three_sessions
       (snd (handle_client 4 [Recv (ascii ''D'' @ [10]), Recv (quit_token @ [10])] three_sessions))) =
     [server_prefix @ ascii ''D'' @ joined @ [10], farewell @ [10]] \<and>
   drop_dead [4] (snd (handle_client 4 [Recv (ascii ''D'' @ [10]), Recv (quit_token @ [10])] three_sessions)) =
     snd (handle_client 4 [Recv (ascii ''D'' @ [10]), Recv (quit_token @ [10])] three_sessions)"
proof -
  have d: "distinct (registered three_sessions)"
    by (simp add: three_sessions_registered)
  have wr: "\<forall>s \<in> set (registered three_sessions). writable three_sessions s"
    by (simp add: three_sessions_writable)
  have r: "4 \<notin> set (registered three_sessions)"
    by (simp add: three_sessions_registered)
  have n: "strip (ascii ''D'' @ [10]) \<noteq> []"
    by (simp add: strip_D) (simp add: ascii_def)
  note t = departure_announced_once [OF d wr r three_sessions_writable n strip_quit, where rest = "[]"]
  show ?thesis
    using t
    by (simp add: strip_D three_sessions_registered del: drop_dead.simps dict_pop.simps)
qed

end
